(* ===== verification/Prelude.thy ===== *)
theory Prelude
  imports Main "HOL-Library.Word" "HOL-Library.Multiset"
begin

text \<open>
  Shared vocabulary of the development: the names of the model's basic types, the fold that
  runs one operation several times and collects its results, and the generic facts on lists,
  maps and 64-bit words that several components use.

  Go's \<open>int\<close> and \<open>int64\<close> are 64-bit two's complement numbers and
  \<open>uint64\<close> is the unsigned type of the same width; both are \<open>64 word\<close> here, read by
  \<open>sint\<close> and \<open>unat\<close>. A Go string is a sequence of bytes: \<open>string\<close>, a list
  of 8-bit characters. A Go map is a partial function.
\<close>

type_synonym int64 = "64 word"
type_synonym uint64 = "64 word"
type_synonym addr = string

text \<open>
  The rules that open the definitions of a component are collected under one name, so that a
  proof can say \<open>simp add: go_defs\<close>; \<open>go_splits\<close> holds frame facts on fields an
  operation does not write.
\<close>

named_theorems go_defs \<open>definitions of straight-line operations\<close>
named_theorems go_frame \<open>fields an operation leaves alone\<close>

section \<open>Running an operation several times\<close>

text \<open>\<open>run_n f n s\<close> calls the state-passing operation \<open>f\<close> \<open>n\<close> times.\<close>

fun run_n :: "('s \<Rightarrow> 'a \<times> 's) \<Rightarrow> nat \<Rightarrow> 's \<Rightarrow> 'a list \<times> 's" where
  "run_n f 0 s = ([], s)"
| "run_n f (Suc n) s =
     (fst (f s) # fst (run_n f n (snd (f s))), snd (run_n f n (snd (f s))))"

lemma run_n_length [simp]: "length (fst (run_n f n s)) = n"
  by (induction n arbitrary: s) auto

lemma run_n_append:
  "fst (run_n f (m + n) s) = fst (run_n f m s) @ fst (run_n f n (snd (run_n f m s)))"
  "snd (run_n f (m + n) s) = snd (run_n f n (snd (run_n f m s)))"
  by (induction m arbitrary: s) auto

lemma run_n_snd_Suc_last: "snd (run_n f (Suc n) s) = snd (f (snd (run_n f n s)))"
  using run_n_append(2)[of f n 1 s] by simp

lemma run_n_fst_Suc_last: "fst (run_n f (Suc n) s) = fst (run_n f n s) @ [fst (f (snd (run_n f n s)))]"
  using run_n_append(1)[of f n 1 s] by simp

lemma run_n_invariant:
  assumes "\<And>s. P s \<Longrightarrow> P (snd (f s))" and "P s"
  shows "P (snd (run_n f n s))"
  using assms(2) by (induction n arbitrary: s) (auto dest: assms(1))

lemma run_n_results:
  assumes "\<And>s. P s \<Longrightarrow> P (snd (f s))" and "\<And>s. P s \<Longrightarrow> Q (fst (f s))" and "P s"
  shows "\<forall>a \<in> set (fst (run_n f n s)). Q a"
  using assms(3) by (induction n arbitrary: s) (auto intro: assms(1,2))

section \<open>Lists\<close>

lemma map_nth_mod_rotate:
  assumes "xs \<noteq> []"
  shows "map (\<lambda>k. xs ! ((c + k) mod length xs)) [0..<length xs] = rotate c xs"
  by (rule nth_equalityI) (use assms in \<open>auto simp: nth_rotate\<close>)

lemma mset_rotate [simp]: "mset (rotate c xs) = mset xs"
  by (metis add.commute append_take_drop_id mset_append rotate_drop_take)

lemma map_list_update_same:
  assumes "k < length xs" "f y = f (xs ! k)"
  shows "map f (xs[k := y]) = map f xs"
  by (rule nth_equalityI) (use assms in \<open>auto simp: nth_list_update\<close>)

lemma count_list_mset: "count_list xs x = count (mset xs) x"
  by (induction xs) auto

lemma filter_map_pair: "map fst (filter (\<lambda>(a, b). P a) (zip xs ys)) = filter P (map fst (zip xs ys))"
  by (induction xs ys rule: list_induct2') auto

section \<open>The loop that keeps the best element so far\<close>

text \<open>
  \<open>best := xs[0]; for _, x := range xs[1:] { if better(x, best) { best = x } }\<close>, returning
  the index of \<open>best\<close>: \<open>i\<close> is the index of the next element, \<open>k\<close> that of the
  best one, \<open>b\<close>. With a strict comparison of keys the result is the first maximum.
\<close>

fun scan_best :: "('a \<Rightarrow> 'a \<Rightarrow> bool) \<Rightarrow> nat \<Rightarrow> 'a \<Rightarrow> nat \<Rightarrow> 'a list \<Rightarrow> nat" where
  "scan_best better k b i [] = k"
| "scan_best better k b i (x # xs) =
     (if better x b then scan_best better i x (Suc i) xs
      else scan_best better k b (Suc i) xs)"

definition first_best :: "('a \<Rightarrow> int) \<Rightarrow> nat \<Rightarrow> 'a list \<Rightarrow> bool" where
  "first_best key k xs \<longleftrightarrow> k < length xs \<and> (\<forall>j < length xs. key (xs ! j) \<le> key (xs ! k)) \<and>
     (\<forall>j < k. key (xs ! j) < key (xs ! k))"

lemma first_best_unique:
  assumes "first_best key k xs" "first_best key k' xs"
  shows "k = k'"
proof (rule ccontr)
  assume "k \<noteq> k'"
  then consider "k < k'" | "k' < k" by linarith
  then show False using assms by cases (auto simp: first_best_def not_less[symmetric])
qed

lemma first_best_map: "first_best key k (map f xs) = first_best (key \<circ> f) k xs"
  by (auto simp: first_best_def)

lemma first_best_cong:
  "length xs = length ys \<Longrightarrow> (\<And>j. j < length xs \<Longrightarrow> f (xs ! j) = g (ys ! j)) \<Longrightarrow>
   first_best f k xs = first_best g k ys"
  by (auto simp: first_best_def)

lemma first_best_snoc:
  assumes "first_best key k pre"
  shows "first_best key (if key (pre ! k) < key x then length pre else k) (pre @ [x])"
  using assms by (auto simp: first_best_def nth_append less_Suc_eq)

lemma scan_best_from:
  assumes "\<And>x y. better x y \<longleftrightarrow> key y < key x"
    and "first_best key k pre" "pre ! k = b"
  shows "first_best key (scan_best better k b (length pre) xs) (pre @ xs)"
  using assms(2,3)
proof (induction xs arbitrary: pre k b)
  case (Cons x xs)
  have *: "first_best key (if key b < key x then length pre else k) (pre @ [x])"
    using first_best_snoc[OF Cons.prems(1), of x] Cons.prems(2) by simp
  have k: "k < length pre" using Cons.prems(1) by (simp add: first_best_def)
  show ?case
  proof (cases "key b < key x")
    case True
    with * Cons.IH[of "length pre" "pre @ [x]" x] show ?thesis by (simp add: assms(1))
  next
    case False
    with * k Cons.prems(2) Cons.IH[of k "pre @ [x]" b] show ?thesis
      by (simp add: assms(1) nth_append)
  qed
qed simp

lemma scan_best_first:
  assumes "\<And>x y. better x y \<longleftrightarrow> key y < key x"
  shows "first_best key (scan_best better 0 x 1 xs) (x # xs)"
  using scan_best_from[of better key 0 "[x]" x xs] assms by (simp add: first_best_def)

section \<open>Maps built by a loop over keys\<close>

text \<open>Go's \<open>for _, x := range xs { m[f(x)] = g(x) }\<close>: a later element wins.\<close>

fun upd_all :: "('a \<Rightarrow> 'k) \<Rightarrow> ('a \<Rightarrow> 'v) \<Rightarrow> ('k \<rightharpoonup> 'v) \<Rightarrow> 'a list \<Rightarrow> ('k \<rightharpoonup> 'v)" where
  "upd_all f g m [] = m"
| "upd_all f g m (x # xs) = upd_all f g (m(f x \<mapsto> g x)) xs"

lemma upd_all_notin: "k \<notin> f ` set xs \<Longrightarrow> upd_all f g m xs k = m k"
  by (induction xs arbitrary: m) auto

lemma upd_all_dom: "dom (upd_all f g m xs) = dom m \<union> f ` set xs"
  by (induction xs arbitrary: m) auto

lemma upd_all_in:
  assumes "k \<in> f ` set xs"
  shows "\<exists>x \<in> set xs. f x = k \<and> upd_all f g m xs k = Some (g x)"
  using assms
proof (induction xs arbitrary: m)
  case (Cons x xs)
  show ?case
  proof (cases "k \<in> f ` set xs")
    case True
    with Cons.IH show ?thesis by fastforce
  next
    case False
    with Cons.prems show ?thesis by (auto simp: upd_all_notin)
  qed
qed simp

lemma upd_all_distinct:
  assumes "distinct (map f xs)" "x \<in> set xs"
  shows "upd_all f g m xs (f x) = Some (g x)"
proof -
  from assms(2) obtain y where y: "y \<in> set xs" "f y = f x" "upd_all f g m xs (f x) = Some (g y)"
    using upd_all_in[of "f x" f xs g m] by auto
  with assms have "y = x" by (auto simp: distinct_map inj_on_def)
  with y show ?thesis by simp
qed

lemma upd_all_const_key:
  "upd_all (\<lambda>x. x) g m xs k = (if k \<in> set xs then Some (g k) else m k)"
  by (induction xs arbitrary: m) auto

section \<open>64-bit words\<close>

lemma sint64_range: "- (2 ^ 63) \<le> sint (x :: 64 word)" "sint (x :: 64 word) < 2 ^ 63"
  using sint_range_size[of x] by (auto simp: word_size)

lemma sint64_eq_0 [simp]: "sint (x :: 64 word) = 0 \<longleftrightarrow> x = 0"
  by (metis signed_0 signed_word_eqI)

lemma sint64_add:
  assumes "- (2 ^ 63) \<le> sint x + sint y" "sint x + sint y < 2 ^ 63"
  shows "sint ((x :: 64 word) + y) = sint x + sint y"
  using assms by (simp add: sint_word_ariths signed_take_bit_int_eq_self)

lemma sint64_diff:
  assumes "- (2 ^ 63) \<le> sint x - sint y" "sint x - sint y < 2 ^ 63"
  shows "sint ((x :: 64 word) - y) = sint x - sint y"
  using assms by (simp add: sint_word_ariths signed_take_bit_int_eq_self)

lemma sint64_of_int:
  assumes "- (2 ^ 63) \<le> i" "i < 2 ^ 63"
  shows "sint (word_of_int i :: 64 word) = i"
  using assms by (simp add: sint_sbintrunc' signed_take_bit_int_eq_self)

lemma unat64_add_nowrap:
  assumes "unat (x :: 64 word) + k < 2 ^ 64"
  shows "unat (x + of_nat k) = unat x + k"
proof -
  have "unat (x + of_nat k) = (unat x + k mod 2 ^ 64) mod 2 ^ 64"
    by (simp add: unat_word_ariths unat_of_nat)
  with assms show ?thesis by simp
qed

end
