(* ===== verification/Go_Strings.thy ===== *)
theory Go_Strings
  imports Prelude
begin

text \<open>
  What the program uses of Go's \<open>strings\<close>, \<open>strconv\<close> and \<open>net\<close> packages on
  strings. A string is a list of bytes, so a Unicode white-space character beyond ASCII is its
  UTF-8 sequence.
\<close>

section \<open>Searching\<close>

fun index_byte :: "char \<Rightarrow> string \<Rightarrow> nat option" where
  "index_byte c [] = None"
| "index_byte c (x # xs) = (if x = c then Some 0 else map_option Suc (index_byte c xs))"

definition last_index_byte :: "char \<Rightarrow> string \<Rightarrow> nat option" where
  "last_index_byte c s = map_option (\<lambda>k. length s - 1 - k) (index_byte c (rev s))"

text \<open>\<open>strings.SplitN(s, sep, 2)\<close> with a one-byte separator.\<close>

definition split_n2 :: "char \<Rightarrow> string \<Rightarrow> string list" where
  "split_n2 c s = (case index_byte c s of None \<Rightarrow> [s] | Some i \<Rightarrow> [take i s, drop (Suc i) s])"

definition trim_prefix :: "string \<Rightarrow> string \<Rightarrow> string" where
  "trim_prefix s p = (if take (length p) s = p then drop (length p) s else s)"

lemma index_byte_None: "index_byte c s = None \<longleftrightarrow> c \<notin> set s"
  by (induction s) auto

lemma index_byte_Some:
  "index_byte c s = Some i \<longleftrightarrow> i < length s \<and> s ! i = c \<and> c \<notin> set (take i s)"
proof (induction s arbitrary: i)
  case (Cons x xs)
  then show ?case by (cases i) auto
qed simp

lemma index_byte_append: "c \<notin> set u \<Longrightarrow> index_byte c (u @ c # v) = Some (length u)"
  by (simp add: index_byte_Some nth_append)

lemma last_index_byte_None: "last_index_byte c s = None \<longleftrightarrow> c \<notin> set s"
  by (simp add: last_index_byte_def index_byte_None)

lemma last_index_byte_append: "c \<notin> set v \<Longrightarrow> last_index_byte c (u @ c # v) = Some (length u)"
  using index_byte_append[of c "rev v" "rev u"] by (simp add: last_index_byte_def)

lemma split_n2_head: "hd (split_n2 c s) = takeWhile (\<lambda>x. x \<noteq> c) s"
  by (induction s) (auto simp: split_n2_def split: option.splits)

lemma split_n2_append: "c \<notin> set u \<Longrightarrow> split_n2 c (u @ c # v) = [u, v]"
  by (simp add: split_n2_def index_byte_append)

section \<open>White space\<close>

text \<open>\<open>unicode.IsSpace\<close>, each character as its UTF-8 bytes.\<close>

definition spaces :: "string list" where
  "spaces =
    [[CHR 0x09], [CHR 0x0A], [CHR 0x0B], [CHR 0x0C], [CHR 0x0D], [CHR 0x20],
     [CHR 0xC2, CHR 0x85], [CHR 0xC2, CHR 0xA0], [CHR 0xE1, CHR 0x9A, CHR 0x80],
     [CHR 0xE2, CHR 0x80, CHR 0x80], [CHR 0xE2, CHR 0x80, CHR 0x81], [CHR 0xE2, CHR 0x80, CHR 0x82],
     [CHR 0xE2, CHR 0x80, CHR 0x83], [CHR 0xE2, CHR 0x80, CHR 0x84], [CHR 0xE2, CHR 0x80, CHR 0x85],
     [CHR 0xE2, CHR 0x80, CHR 0x86], [CHR 0xE2, CHR 0x80, CHR 0x87], [CHR 0xE2, CHR 0x80, CHR 0x88],
     [CHR 0xE2, CHR 0x80, CHR 0x89], [CHR 0xE2, CHR 0x80, CHR 0x8A], [CHR 0xE2, CHR 0x80, CHR 0xA8],
     [CHR 0xE2, CHR 0x80, CHR 0xA9], [CHR 0xE2, CHR 0x80, CHR 0xAF], [CHR 0xE2, CHR 0x81, CHR 0x9F],
     [CHR 0xE3, CHR 0x80, CHR 0x80]]"

definition leading_space :: "string \<Rightarrow> nat" where
  "leading_space s =
     (case find (\<lambda>w. take (length w) s = w) spaces of None \<Rightarrow> 0 | Some w \<Rightarrow> length w)"

definition trailing_space :: "string \<Rightarrow> nat" where
  "trailing_space s =
     (case find (\<lambda>w. length w \<le> length s \<and> drop (length s - length w) s = w) spaces of
        None \<Rightarrow> 0 | Some w \<Rightarrow> length w)"

lemma spaces_nonempty: "w \<in> set spaces \<Longrightarrow> w \<noteq> []"
  by (auto simp: spaces_def)

lemma leading_space_0: "leading_space s = 0 \<longleftrightarrow> (\<forall>w \<in> set spaces. take (length w) s \<noteq> w)"
  using spaces_nonempty
  by (auto simp: leading_space_def find_None_iff find_Some_iff split: option.splits)

lemma trailing_space_0:
  "trailing_space s = 0 \<longleftrightarrow> (\<forall>w \<in> set spaces. length w \<le> length s \<longrightarrow> drop (length s - length w) s \<noteq> w)"
  using spaces_nonempty
  by (auto simp: trailing_space_def find_None_iff find_Some_iff split: option.splits)

lemma leading_space_shrinks:
  assumes "leading_space s \<noteq> 0"
  shows "length (drop (leading_space s) s) < length s"
proof -
  obtain w where "w \<in> set spaces" "take (length w) s = w" using assms by (auto simp: leading_space_0)
  then have "s \<noteq> []" using spaces_nonempty[of w] by auto
  with assms show ?thesis by simp
qed

lemma trailing_space_shrinks:
  assumes "trailing_space s \<noteq> 0"
  shows "length (take (length s - trailing_space s) s) < length s"
proof -
  obtain w where "w \<in> set spaces" "drop (length s - length w) s = w"
    using assms by (auto simp: trailing_space_0)
  then have "s \<noteq> []" using spaces_nonempty[of w] by auto
  with assms show ?thesis by simp
qed

function trim_left :: "string \<Rightarrow> string" where
  "trim_left s = (if leading_space s = 0 then s else trim_left (drop (leading_space s) s))"
  by pat_completeness auto
termination
  by (relation "measure length") (simp_all only: wf_measure in_measure leading_space_shrinks not_False_eq_True)

function trim_right :: "string \<Rightarrow> string" where
  "trim_right s =
     (if trailing_space s = 0 then s else trim_right (take (length s - trailing_space s) s))"
  by pat_completeness auto
termination
  by (relation "measure length") (simp_all only: wf_measure in_measure trailing_space_shrinks not_False_eq_True)

declare trim_left.simps [simp del] trim_right.simps [simp del]

definition TrimSpace :: "string \<Rightarrow> string" where
  "TrimSpace s = trim_right (trim_left s)"

lemma trim_left_clean: "leading_space (trim_left s) = 0"
proof (induction s rule: trim_left.induct)
  case (1 s)
  then show ?case by (cases "leading_space s = 0") (simp_all add: trim_left.simps[of s])
qed

lemma trim_right_clean: "trailing_space (trim_right s) = 0"
proof (induction s rule: trim_right.induct)
  case (1 s)
  then show ?case by (cases "trailing_space s = 0") (simp_all add: trim_right.simps[of s])
qed

lemma leading_space_take:
  assumes "leading_space s = 0"
  shows "leading_space (take n s) = 0"
  unfolding leading_space_0
proof
  fix w assume w: "w \<in> set spaces"
  show "take (length w) (take n s) \<noteq> w"
  proof
    assume eq: "take (length w) (take n s) = w"
    then have "length (take (length w) (take n s)) = length w" by simp
    then have "length w \<le> n" by simp
    with eq have "take (length w) s = w" by (simp add: take_take min_def)
    with assms w show False by (simp add: leading_space_0)
  qed
qed

lemma trim_right_prefix: "\<exists>n. trim_right s = take n s"
proof (induction s rule: trim_right.induct)
  case (1 s)
  show ?case
  proof (cases "trailing_space s = 0")
    case True
    then show ?thesis by (auto simp: trim_right.simps[of s] intro: exI[of _ "length s"])
  next
    case False
    with "1" obtain n where "trim_right (take (length s - trailing_space s) s) =
        take n (take (length s - trailing_space s) s)" by blast
    with False show ?thesis by (auto simp: trim_right.simps[of s] take_take)
  qed
qed

text \<open>The result starts and ends with no white space, and such a string is left alone.\<close>

lemma TrimSpace_clean: "leading_space (TrimSpace s) = 0" "trailing_space (TrimSpace s) = 0"
  using trim_right_prefix[of "trim_left s"] leading_space_take[OF trim_left_clean[of s]]
  by (auto simp: TrimSpace_def trim_right_clean)

lemma TrimSpace_id: "leading_space s = 0 \<Longrightarrow> trailing_space s = 0 \<Longrightarrow> TrimSpace s = s"
  by (simp add: TrimSpace_def trim_left.simps[of s] trim_right.simps[of s])

lemma TrimSpace_idem [simp]: "TrimSpace (TrimSpace s) = TrimSpace s"
  by (rule TrimSpace_id) (rule TrimSpace_clean)+

lemma TrimSpace_Nil [simp]: "TrimSpace [] = []"
  by (rule TrimSpace_id) (simp_all add: leading_space_def trailing_space_def spaces_def)

text \<open>\<open>strings.EqualFold\<close> for an ASCII letter without special case folding, such as \<open>"y"\<close>.\<close>

definition ascii_lower :: "char \<Rightarrow> char" where
  "ascii_lower c = (if 65 \<le> (of_char c :: nat) \<and> of_char c \<le> (90 :: nat) then char_of ((of_char c :: nat) + 32) else c)"

definition EqualFold :: "string \<Rightarrow> string \<Rightarrow> bool" where
  "EqualFold s t \<longleftrightarrow> map ascii_lower s = map ascii_lower t"

section \<open>Numbers\<close>

definition digit_val :: "char \<Rightarrow> int option" where
  "digit_val c = (if 48 \<le> (of_char c :: int) \<and> of_char c \<le> (57 :: int) then Some (of_char c - 48) else None)"

datatype num_err = ErrSyntax | ErrRange

text \<open>
  \<open>strconv.ParseUint\<close> in base 10: the value and the error. An overflow is reported as soon as
  it happens, before the rest of the string is looked at; a wrong character found earlier is a
  syntax error with value 0.
\<close>

fun parse_digits :: "int \<Rightarrow> string \<Rightarrow> int \<times> num_err option" where
  "parse_digits n [] = (n, None)"
| "parse_digits n (c # cs) =
     (case digit_val c of
        None \<Rightarrow> (0, Some ErrSyntax)
      | Some d \<Rightarrow> if 10 * n + d \<ge> 2 ^ 64 then (2 ^ 64 - 1, Some ErrRange)
                  else parse_digits (10 * n + d) cs)"

definition ParseUint :: "string \<Rightarrow> int \<times> num_err option" where
  "ParseUint s = (if s = [] then (0, Some ErrSyntax) else parse_digits 0 s)"

text \<open>\<open>strconv.ParseInt(s, 10, 64)\<close> and \<open>strconv.Atoi\<close>: out of range clamps to the limit.\<close>

definition ParseInt :: "string \<Rightarrow> int \<times> num_err option" where
  "ParseInt s =
     (if s = [] then (0, Some ErrSyntax)
      else let neg = (hd s = CHR ''-'');
               body = (if hd s = CHR ''+'' \<or> hd s = CHR ''-'' then tl s else s);
               (un, err) = ParseUint body
           in if err = Some ErrSyntax then (0, Some ErrSyntax)
              else if \<not> neg \<and> un \<ge> 2 ^ 63 then (2 ^ 63 - 1, Some ErrRange)
              else if neg \<and> un > 2 ^ 63 then (- (2 ^ 63), Some ErrRange)
              else (if neg then - un else un, None))"

definition Atoi :: "string \<Rightarrow> int \<times> num_err option" where
  "Atoi s = ParseInt s"

text \<open>\<open>strconv.Itoa\<close>.\<close>

definition digit_char :: "nat \<Rightarrow> char" where
  "digit_char d = char_of (48 + d)"

fun nat_digits :: "nat \<Rightarrow> string" where
  "nat_digits n = (if n < 10 then [digit_char n] else nat_digits (n div 10) @ [digit_char (n mod 10)])"

declare nat_digits.simps [simp del]

definition Itoa :: "int \<Rightarrow> string" where
  "Itoa i = (if i < 0 then CHR ''-'' # nat_digits (nat (- i)) else nat_digits (nat i))"

lemma digit_char_code: "d < 10 \<Longrightarrow> of_char (digit_char d) = (of_nat (48 + d) :: int)"
proof -
  assume "d < 10"
  then have "of_char (digit_char d) = 48 + d" by (simp add: digit_char_def)
  then show ?thesis by (metis of_nat_of_char)
qed

lemma digit_val_char: "d < 10 \<Longrightarrow> digit_val (digit_char d) = Some (int d)"
  by (simp add: digit_val_def digit_char_code)

lemma parse_digits_append:
  "parse_digits n u = (m, None) \<Longrightarrow> parse_digits n (u @ v) = parse_digits m v"
  by (induction u arbitrary: n) (auto split: option.splits if_splits)

lemma parse_nat_digits: "int n < 2 ^ 64 \<Longrightarrow> parse_digits 0 (nat_digits n) = (int n, None)"
proof (induction n rule: nat_digits.induct)
  case (1 n)
  show ?case
  proof (cases "n < 10")
    case True
    then show ?thesis by (simp add: nat_digits.simps[of n] digit_val_char)
  next
    case False
    with "1" have "parse_digits 0 (nat_digits (n div 10)) = (int (n div 10), None)" by simp
    moreover have "10 * int (n div 10) + int (n mod 10) = int n" by presburger
    ultimately show ?thesis
      using False "1.prems"
      by (simp add: nat_digits.simps[of n] digit_val_char parse_digits_append)
  qed
qed

lemma nat_digits_nonempty: "nat_digits n \<noteq> []"
  by (subst nat_digits.simps) simp

lemma nat_digits_hd: "\<exists>d < 10. hd (nat_digits n) = digit_char d"
proof (induction n rule: nat_digits.induct)
  case (1 n)
  then show ?case using nat_digits_nonempty[of "n div 10"]
    by (cases "n < 10") (auto simp: nat_digits.simps[of n] hd_append)
qed

lemma digit_char_no_sign: "d < 10 \<Longrightarrow> digit_char d \<noteq> CHR ''+'' \<and> digit_char d \<noteq> CHR ''-''"
proof -
  assume d: "d < 10"
  have "list_all (\<lambda>d. digit_char d \<noteq> CHR ''+'' \<and> digit_char d \<noteq> CHR ''-'') [0..<10]"
    by code_simp
  with d show ?thesis by (simp add: list_all_iff)
qed

lemma nat_digits_no_sign: "hd (nat_digits n) \<noteq> CHR ''+''" "hd (nat_digits n) \<noteq> CHR ''-''"
  using nat_digits_hd[of n] digit_char_no_sign by metis+

text \<open>Printing a 64-bit number and parsing it back.\<close>

lemma ParseInt_Itoa:
  assumes "- (2 ^ 63) \<le> i" "i < 2 ^ 63"
  shows "ParseInt (Itoa i) = (i, None)"
proof (cases "i < 0")
  case True
  then have "int (nat (- i)) < 2 ^ 64" using assms by simp
  from parse_nat_digits[OF this] True assms nat_digits_nonempty[of "nat (- i)"] show ?thesis
    by (simp add: ParseInt_def Itoa_def ParseUint_def Let_def)
next
  case False
  then have "int (nat i) < 2 ^ 64" using assms by simp
  from parse_nat_digits[OF this] False assms nat_digits_nonempty[of "nat i"] nat_digits_no_sign[of "nat i"]
  show ?thesis by (auto simp: ParseInt_def Itoa_def ParseUint_def Let_def nat_less_iff)
qed

section \<open>Host and port\<close>

datatype addr_err = MissingPort | TooManyColons | MissingBracket | UnexpectedOpen | UnexpectedClose

text \<open>\<open>net.SplitHostPort\<close>: the port follows the last colon, a bracketed host may hold colons.\<close>

definition SplitHostPort :: "string \<Rightarrow> addr_err + string \<times> string" where
  "SplitHostPort hp =
     (case last_index_byte (CHR '':'') hp of
        None \<Rightarrow> Inl MissingPort
      | Some i \<Rightarrow>
          let finish = (\<lambda>host j k.
                if CHR ''['' \<in> set (drop j hp) then Inl UnexpectedOpen
                else if CHR '']'' \<in> set (drop k hp) then Inl UnexpectedClose
                else Inr (host, drop (Suc i) hp))
          in if hd hp = CHR ''['' then
               (case index_byte (CHR '']'') hp of
                  None \<Rightarrow> Inl MissingBracket
                | Some e \<Rightarrow>
                    if Suc e = length hp then Inl MissingPort
                    else if Suc e = i then finish (take (e - 1) (drop 1 hp)) 1 (Suc e)
                    else if hp ! Suc e = CHR '':'' then Inl TooManyColons
                    else Inl MissingPort)
             else
               let host = take i hp
               in if CHR '':'' \<in> set host then Inl TooManyColons else finish host 0 0)"

text \<open>A plain host and port come apart where they were put together.\<close>

lemma SplitHostPort_plain:
  assumes "\<forall>c \<in> {CHR '':'', CHR ''['', CHR '']''}. c \<notin> set host \<and> c \<notin> set port"
  shows "SplitHostPort (host @ CHR '':'' # port) = Inr (host, port)"
proof -
  have "last_index_byte (CHR '':'') (host @ CHR '':'' # port) = Some (length host)"
    using assms by (intro last_index_byte_append) simp
  moreover have "hd (host @ CHR '':'' # port) \<noteq> CHR ''[''" using assms by (cases host) auto
  ultimately show ?thesis using assms by (auto simp: SplitHostPort_def Let_def)
qed

lemma SplitHostPort_bracket:
  assumes "CHR ''['' \<notin> set host \<and> CHR '']'' \<notin> set host"
    "\<forall>c \<in> {CHR '':'', CHR ''['', CHR '']''}. c \<notin> set port"
  shows "SplitHostPort (CHR ''['' # host @ CHR '']'' # CHR '':'' # port) = Inr (host, port)"
proof -
  let ?s = "CHR ''['' # host @ CHR '']'' # CHR '':'' # port"
  have "last_index_byte (CHR '':'') ?s = Some (Suc (Suc (length host)))"
    using last_index_byte_append[of "CHR '':''" port "CHR ''['' # host @ [CHR '']'']"] assms by simp
  moreover have "index_byte (CHR '']'') ?s = Some (Suc (length host))"
    using index_byte_append[of "CHR '']''" "CHR ''['' # host" "CHR '':'' # port"] assms by simp
  ultimately show ?thesis using assms by (auto simp: SplitHostPort_def Let_def)
qed

end
