(* ===== verification/Http_Types.thy ===== *)
theory Http_Types
  imports Go_Strings
begin

text \<open>
  What the HTTP layers share of Go's \<open>net/http\<close>: a request, the calls a handler makes on its
  \<open>ResponseWriter\<close>, how those calls decide the status on the wire, and handlers as
  state-passing functions. A handler returns the calls it made, whether it returned or panicked
  (the reverse proxy aborts a response with a panic), and the new state.
\<close>

record request =
  rq_method :: string
  rq_scheme :: string
  rq_url_host :: string
  rq_path :: string
  rq_host :: string
  rq_header :: "string \<Rightarrow> string list"
  rq_remote :: string

definition header_get :: "(string \<Rightarrow> string list) \<Rightarrow> string \<Rightarrow> string" where
  "header_get h k = (case h k of [] \<Rightarrow> '''' | v # _ \<Rightarrow> v)"

definition header_set :: "(string \<Rightarrow> string list) \<Rightarrow> string \<Rightarrow> string \<Rightarrow> (string \<Rightarrow> string list)" where
  "header_set h k v = h(k := [v])"

abbreviation XFF :: string where
  "XFF \<equiv> ''X-Forwarded-For''"

datatype w_call =
    W_Header string string \<comment> \<open>\<open>w.Header().Set(k, v)\<close>\<close>
  | W_WriteHeader int
  | W_Write string

datatype outcome = Returned | Panicked

type_synonym 's handler = "request \<Rightarrow> 's \<Rightarrow> w_call list \<times> outcome \<times> 's"

text \<open>\<open>http.Error\<close>.\<close>

definition http_error :: "string \<Rightarrow> int \<Rightarrow> w_call list" where
  "http_error msg code =
     [W_Header ''Content-Type'' ''text/plain; charset=utf-8'',
      W_Header ''X-Content-Type-Options'' ''nosniff'',
      W_WriteHeader code, W_Write (msg @ [CHR 0x0A])]"

text \<open>
  The server's own writer: an informational status (1xx but 101) is sent at once and is not the
  final one; the first other status wins; a body write, or the end of the handler, before any
  final status means 200.
\<close>

definition informational :: "int \<Rightarrow> bool" where
  "informational code \<longleftrightarrow> 100 \<le> code \<and> code \<le> 199 \<and> code \<noteq> 101"

fun wire_status :: "w_call list \<Rightarrow> int" where
  "wire_status [] = 200"
| "wire_status (W_Header k v # cs) = wire_status cs"
| "wire_status (W_WriteHeader c # cs) = (if informational c then wire_status cs else c)"
| "wire_status (W_Write b # cs) = 200"

fun body_bytes :: "w_call list \<Rightarrow> string" where
  "body_bytes [] = []"
| "body_bytes (W_Write b # cs) = b @ body_bytes cs"
| "body_bytes (W_Header k v # cs) = body_bytes cs"
| "body_bytes (W_WriteHeader c # cs) = body_bytes cs"

definition no_informational :: "w_call list \<Rightarrow> bool" where
  "no_informational cs \<longleftrightarrow> (\<forall>c. W_WriteHeader c \<in> set cs \<longrightarrow> \<not> informational c)"

lemma no_informational_simps [simp]:
  "no_informational []"
  "no_informational (W_Header k v # cs) = no_informational cs"
  "no_informational (W_WriteHeader c # cs) \<longleftrightarrow> \<not> informational c \<and> no_informational cs"
  "no_informational (W_Write b # cs) = no_informational cs"
  by (auto simp: no_informational_def)

lemma wire_status_http_error [simp]: "wire_status (http_error msg code) = (if informational code then 200 else code)"
  by (simp add: http_error_def)

lemma no_informational_http_error [simp]: "no_informational (http_error msg code) \<longleftrightarrow> \<not> informational code"
  by (simp add: http_error_def)

end
