(* ===== verification/Status_Writer.thy ===== *)
theory Status_Writer
  imports Http_Types
begin

text \<open>
  The \<open>statusWriter\<close> of \<^verbatim>\<open>internal/metrics/middleware.go\<close>, which
  \<^verbatim>\<open>internal/logger/stellar.go\<close> repeats: it records the first status and passes the calls
  on. Each method returns the writer and the calls made on the wrapped one; \<open>sw_run\<close> feeds it
  the calls of a whole handler. The logger's copy is modelled as it stands (\<open>sl_\<close> names) and
  shown to be the same machine.
\<close>

record status_writer =
  sw_status :: int
  sw_wrote :: bool

definition sw_New :: status_writer where
  "sw_New = \<lparr>sw_status = 200, sw_wrote = False\<rparr>"

definition sw_WriteHeader :: "status_writer \<Rightarrow> int \<Rightarrow> status_writer \<times> w_call list" where
  "sw_WriteHeader sw code =
     (if \<not> sw_wrote sw
      then (sw\<lparr>sw_status := code, sw_wrote := True\<rparr>, [W_WriteHeader code])
      else (sw, []))"

definition sw_Write :: "status_writer \<Rightarrow> string \<Rightarrow> status_writer \<times> w_call list" where
  "sw_Write sw b =
     ((if \<not> sw_wrote sw then sw\<lparr>sw_status := 200, sw_wrote := True\<rparr> else sw), [W_Write b])"

text \<open>The same two methods in the logger.\<close>

definition sl_WriteHeader :: "status_writer \<Rightarrow> int \<Rightarrow> status_writer \<times> w_call list" where
  "sl_WriteHeader sw code =
     (if \<not> sw_wrote sw
      then (sw\<lparr>sw_status := code, sw_wrote := True\<rparr>, [W_WriteHeader code])
      else (sw, []))"

definition sl_Write :: "status_writer \<Rightarrow> string \<Rightarrow> status_writer \<times> w_call list" where
  "sl_Write sw b =
     ((if \<not> sw_wrote sw then sw\<lparr>sw_status := 200, sw_wrote := True\<rparr> else sw), [W_Write b])"

text \<open>A handler's calls through a status writer with methods \<open>wh\<close> and \<open>wr\<close>.\<close>

fun through ::
  "(status_writer \<Rightarrow> int \<Rightarrow> status_writer \<times> w_call list) \<Rightarrow>
   (status_writer \<Rightarrow> string \<Rightarrow> status_writer \<times> w_call list) \<Rightarrow>
   status_writer \<Rightarrow> w_call list \<Rightarrow> status_writer \<times> w_call list" where
  "through wh wr sw [] = (sw, [])"
| "through wh wr sw (W_Header k v # cs) =
     (let (sw', out) = through wh wr sw cs in (sw', W_Header k v # out))"
| "through wh wr sw (W_WriteHeader c # cs) =
     (let (sw1, o1) = wh sw c; (sw2, o2) = through wh wr sw1 cs in (sw2, o1 @ o2))"
| "through wh wr sw (W_Write b # cs) =
     (let (sw1, o1) = wr sw b; (sw2, o2) = through wh wr sw1 cs in (sw2, o1 @ o2))"

definition sw_run :: "status_writer \<Rightarrow> w_call list \<Rightarrow> status_writer \<times> w_call list" where
  "sw_run = through sw_WriteHeader sw_Write"

definition sl_run :: "status_writer \<Rightarrow> w_call list \<Rightarrow> status_writer \<times> w_call list" where
  "sl_run = through sl_WriteHeader sl_Write"

lemma sl_run_eq: "sl_run = sw_run"
  by (simp add: sl_run_def sw_run_def sl_WriteHeader_def[abs_def] sw_WriteHeader_def[abs_def]
      sl_Write_def[abs_def] sw_Write_def[abs_def])

lemma sw_run_simps [simp]:
  "sw_run sw [] = (sw, [])"
  "sw_run sw (W_Header k v # cs) = (fst (sw_run sw cs), W_Header k v # snd (sw_run sw cs))"
  "sw_run sw (W_WriteHeader c # cs) =
     (let r = sw_run (fst (sw_WriteHeader sw c)) cs in (fst r, snd (sw_WriteHeader sw c) @ snd r))"
  "sw_run sw (W_Write b # cs) =
     (let r = sw_run (fst (sw_Write sw b)) cs in (fst r, snd (sw_Write sw b) @ snd r))"
  by (simp_all add: sw_run_def Let_def split: prod.splits)

section \<open>What is recorded and what is passed on\<close>

lemma sw_run_wrote:
  "sw_wrote sw \<Longrightarrow> fst (sw_run sw cs) = sw"
proof (induction cs arbitrary: sw)
  case (Cons c cs)
  then show ?case by (cases c) (simp_all add: sw_WriteHeader_def sw_Write_def Let_def)
qed simp

text \<open>At most one status reaches the wrapped writer.\<close>

fun header_writes :: "w_call list \<Rightarrow> int list" where
  "header_writes [] = []"
| "header_writes (W_WriteHeader c # cs) = c # header_writes cs"
| "header_writes (W_Header k v # cs) = header_writes cs"
| "header_writes (W_Write b # cs) = header_writes cs"

lemma header_writes_append [simp]: "header_writes (xs @ ys) = header_writes xs @ header_writes ys"
  by (induction xs rule: header_writes.induct) auto

lemma sw_run_header_writes_wrote: "sw_wrote sw \<Longrightarrow> header_writes (snd (sw_run sw cs)) = []"
proof (induction cs arbitrary: sw)
  case (Cons c cs)
  then show ?case by (cases c) (simp_all add: sw_WriteHeader_def sw_Write_def Let_def)
qed simp

lemma sw_run_one_header: "length (header_writes (snd (sw_run sw cs))) \<le> 1"
proof (induction cs arbitrary: sw)
  case (Cons c cs)
  then show ?case
    using sw_run_header_writes_wrote
    by (cases c) (auto simp: sw_WriteHeader_def sw_Write_def Let_def)
qed simp

lemma sw_run_body: "body_bytes (snd (sw_run sw cs)) = body_bytes cs"
proof (induction cs arbitrary: sw)
  case (Cons c cs)
  then show ?case by (cases c) (auto simp: sw_WriteHeader_def sw_Write_def Let_def)
qed simp

text \<open>
  Without informational statuses the writer is transparent: the client sees the status it would
  have seen without the wrapper, and that status is the recorded one.
\<close>

lemma sw_run_status:
  assumes "no_informational cs" "\<not> sw_wrote sw" "sw_status sw = 200"
  shows "sw_status (fst (sw_run sw cs)) = wire_status cs"
    and "wire_status (snd (sw_run sw cs)) = wire_status cs"
  using assms(1)
proof (induction cs)
  case (Cons c cs)
  { case 1
    then show ?case using Cons.IH(1) assms(2,3)
      by (cases c) (auto simp: sw_WriteHeader_def sw_Write_def Let_def sw_run_wrote) }
  { case 2
    then show ?case using Cons.IH(2) assms(2,3)
      by (cases c) (auto simp: sw_WriteHeader_def sw_Write_def Let_def) }
qed (use assms in auto)

lemma sw_run_no_informational:
  "no_informational cs \<Longrightarrow> no_informational (snd (sw_run sw cs))"
proof (induction cs arbitrary: sw)
  case (Cons c cs)
  then show ?case by (cases c) (auto simp: sw_WriteHeader_def sw_Write_def Let_def)
qed simp

text \<open>With one, the final status never gets through.\<close>

lemma sw_run_informational:
  assumes "informational i"
  shows "sw_status (fst (sw_run sw_New (W_WriteHeader i # cs))) = i"
    and "wire_status (snd (sw_run sw_New (W_WriteHeader i # cs))) = 200"
proof -
  have "wire_status (snd (sw_run sw cs)) = 200" if "sw_wrote sw" for sw
    using that
  proof (induction cs arbitrary: sw)
    case (Cons c cs)
    then show ?case by (cases c) (auto simp: sw_WriteHeader_def sw_Write_def Let_def)
  qed simp
  then show "sw_status (fst (sw_run sw_New (W_WriteHeader i # cs))) = i"
    "wire_status (snd (sw_run sw_New (W_WriteHeader i # cs))) = 200"
    using assms by (auto simp: sw_New_def sw_WriteHeader_def Let_def sw_run_wrote)
qed

end
