(* ===== verification/Go_Float.thy ===== *)
theory Go_Float
  imports Complex_Main "HOL-Library.Log_Nat" Prelude
begin

text \<open>
  Go's \<open>float64\<close>: a finite value (an exact rational), an infinity or a NaN, where every
  arithmetic operation is the exact result rounded to 53 significant bits, ties to even, with
  gradual underflow at \<open>2^-1074\<close> and overflow at \<open>2^1024\<close>, as IEEE 754 says. The two
  zeros are one value here; nothing in the program divides by a zero or reads its sign. The
  lemmas are the ones proofs about bounds need: rounding is monotone, keeps representable values
  and so preserves the order of an exact computation with a representable bound.
\<close>

datatype f64 = Fin rat | PInf | NInf | NaN

section \<open>Rounding\<close>

definition ilog2 :: "rat \<Rightarrow> int" where
  "ilog2 x = (let (p, q) = quotient_of x; k = bitlen p - bitlen q
              in if 2 powi k \<le> x then k else k - 1)"

definition round_half_even :: "rat \<Rightarrow> int" where
  "round_half_even x =
     (let f = \<lfloor>x\<rfloor>; d = x - of_int f
      in if d < 1 / 2 then f else if 1 / 2 < d then f + 1 else if even f then f else f + 1)"

definition round_exp :: "rat \<Rightarrow> int" where
  "round_exp x = max (ilog2 x - 52) (- 1074)"

definition round_pos :: "rat \<Rightarrow> rat" where
  "round_pos x = of_int (round_half_even (x / 2 powi round_exp x)) * 2 powi round_exp x"

definition rnd :: "rat \<Rightarrow> rat" where
  "rnd x = (if x = 0 then 0 else if 0 < x then round_pos x else - round_pos (- x))"

definition fl :: "rat \<Rightarrow> f64" where
  "fl x = (let y = rnd x
           in if 2 ^ 1024 \<le> y then PInf else if y \<le> - (2 ^ 1024) then NInf else Fin y)"

section \<open>Operations\<close>

fun fneg :: "f64 \<Rightarrow> f64" where
  "fneg (Fin x) = Fin (- x)"
| "fneg PInf = NInf"
| "fneg NInf = PInf"
| "fneg NaN = NaN"

fun fadd :: "f64 \<Rightarrow> f64 \<Rightarrow> f64" where
  "fadd NaN y = NaN"
| "fadd x NaN = NaN"
| "fadd (Fin x) (Fin y) = fl (x + y)"
| "fadd PInf NInf = NaN"
| "fadd NInf PInf = NaN"
| "fadd PInf y = PInf"
| "fadd x PInf = PInf"
| "fadd NInf y = NInf"
| "fadd x NInf = NInf"

definition fsub :: "f64 \<Rightarrow> f64 \<Rightarrow> f64" where
  "fsub x y = fadd x (fneg y)"

definition inf_of :: "bool \<Rightarrow> f64" where
  "inf_of pos = (if pos then PInf else NInf)"

fun fmul :: "f64 \<Rightarrow> f64 \<Rightarrow> f64" where
  "fmul NaN y = NaN"
| "fmul x NaN = NaN"
| "fmul (Fin x) (Fin y) = fl (x * y)"
| "fmul (Fin x) PInf = (if x = 0 then NaN else inf_of (0 < x))"
| "fmul (Fin x) NInf = (if x = 0 then NaN else inf_of (x < 0))"
| "fmul PInf (Fin y) = (if y = 0 then NaN else inf_of (0 < y))"
| "fmul NInf (Fin y) = (if y = 0 then NaN else inf_of (y < 0))"
| "fmul PInf PInf = PInf"
| "fmul PInf NInf = NInf"
| "fmul NInf PInf = NInf"
| "fmul NInf NInf = PInf"

fun fdiv :: "f64 \<Rightarrow> f64 \<Rightarrow> f64" where
  "fdiv NaN y = NaN"
| "fdiv x NaN = NaN"
| "fdiv (Fin x) (Fin y) = (if y \<noteq> 0 then fl (x / y) else if x = 0 then NaN else inf_of (0 < x))"
| "fdiv (Fin x) PInf = Fin 0"
| "fdiv (Fin x) NInf = Fin 0"
| "fdiv PInf (Fin y) = inf_of (0 \<le> y)"
| "fdiv NInf (Fin y) = inf_of (y < 0)"
| "fdiv PInf PInf = NaN"
| "fdiv PInf NInf = NaN"
| "fdiv NInf PInf = NaN"
| "fdiv NInf NInf = NaN"

fun flt :: "f64 \<Rightarrow> f64 \<Rightarrow> bool" where
  "flt NaN y = False"
| "flt x NaN = False"
| "flt (Fin x) (Fin y) = (x < y)"
| "flt x PInf = (x \<noteq> PInf)"
| "flt NInf y = (y \<noteq> NInf)"
| "flt x y = False"

fun fle :: "f64 \<Rightarrow> f64 \<Rightarrow> bool" where
  "fle NaN y = False"
| "fle x NaN = False"
| "fle (Fin x) (Fin y) = (x \<le> y)"
| "fle x PInf = True"
| "fle NInf y = True"
| "fle x y = False"

definition feq :: "f64 \<Rightarrow> f64 \<Rightarrow> bool" where
  "feq x y \<longleftrightarrow> fle x y \<and> fle y x"

text \<open>The operators of Go on \<open>float64\<close>. They have no laws beyond their definitions: \<open>+\<close> is not
  associative, and \<open><\<close> and \<open>\<le>\<close> are both false of a NaN.\<close>

instantiation f64 :: "{zero, plus, minus, uminus, times, inverse, ord}"
begin

definition zero_f64 :: f64 where
  "0 = Fin 0"

definition plus_f64 :: "f64 \<Rightarrow> f64 \<Rightarrow> f64" where
  "x + y = fadd x y"

definition uminus_f64 :: "f64 \<Rightarrow> f64" where
  "- x = fneg x"

definition minus_f64 :: "f64 \<Rightarrow> f64 \<Rightarrow> f64" where
  "x - y = fsub x y"

definition times_f64 :: "f64 \<Rightarrow> f64 \<Rightarrow> f64" where
  "x * y = fmul x y"

definition inverse_f64 :: "f64 \<Rightarrow> f64" where
  "inverse x = fdiv (Fin 1) x"

definition divide_f64 :: "f64 \<Rightarrow> f64 \<Rightarrow> f64" where
  "x div y = fdiv x y"

definition less_f64 :: "f64 \<Rightarrow> f64 \<Rightarrow> bool" where
  "x < y \<longleftrightarrow> flt x y"

definition less_eq_f64 :: "f64 \<Rightarrow> f64 \<Rightarrow> bool" where
  "x \<le> y \<longleftrightarrow> fle x y"

instance ..

end

lemmas f64_ops [simp] =
  zero_f64_def plus_f64_def uminus_f64_def minus_f64_def times_f64_def divide_f64_def less_f64_def less_eq_f64_def

text \<open>\<open>float64(i)\<close> of an integer, and \<open>int64(f)\<close>: truncation, or the amd64 result out of range.\<close>

definition f64_of_int :: "int \<Rightarrow> f64" where
  "f64_of_int i = fl (of_int i)"

definition rat_trunc :: "rat \<Rightarrow> int" where
  "rat_trunc x = (if 0 \<le> x then \<lfloor>x\<rfloor> else \<lceil>x\<rceil>)"

fun int64_of_f64 :: "f64 \<Rightarrow> int64" where
  "int64_of_f64 (Fin x) =
     (if - (2 ^ 63) \<le> rat_trunc x \<and> rat_trunc x < 2 ^ 63 then word_of_int (rat_trunc x)
      else word_of_int (- (2 ^ 63)))"
| "int64_of_f64 _ = word_of_int (- (2 ^ 63))"

section \<open>Rounding to an integer\<close>

lemma round_half_even_int [simp]: "round_half_even (of_int n) = n"
  by (simp add: round_half_even_def)

lemma round_half_even_bounds: "\<lfloor>x\<rfloor> \<le> round_half_even x" "round_half_even x \<le> \<lfloor>x\<rfloor> + 1"
  by (simp_all add: round_half_even_def Let_def)

lemma round_half_even_mono:
  assumes "x \<le> y"
  shows "round_half_even x \<le> round_half_even y"
proof (cases "\<lfloor>x\<rfloor> = \<lfloor>y\<rfloor>")
  case True
  then show ?thesis using assms by (auto simp: round_half_even_def Let_def)
next
  case False
  then have "\<lfloor>x\<rfloor> + 1 \<le> \<lfloor>y\<rfloor>" using floor_mono[OF assms] by simp
  then show ?thesis
    using round_half_even_bounds(2)[of x] round_half_even_bounds(1)[of y] by linarith
qed

lemma round_half_even_error: "\<bar>of_int (round_half_even x) - x\<bar> \<le> 1 / 2"
  using floor_correct[of x] by (auto simp: round_half_even_def Let_def abs_le_iff)

section \<open>Binary exponents\<close>

lemma powi_add: "(2::rat) powi (a + b) = 2 powi a * 2 powi b"
  by (simp add: power_int_add)

lemma powi_pos [simp]: "0 < (2::rat) powi a"
  by simp

lemma powi_le_iff [simp]: "(2::rat) powi a \<le> 2 powi b \<longleftrightarrow> a \<le> b"
  using power_int_increasing[of a b "2::rat"] power_int_strict_increasing[of b a "2::rat"]
  by fastforce

lemma powi_less_iff [simp]: "(2::rat) powi a < 2 powi b \<longleftrightarrow> a < b"
  by (simp add: less_le_not_le)

lemma powi_nat: "0 \<le> a \<Longrightarrow> (2::rat) powi a = of_int (2 ^ nat a)"
  by (simp add: power_int_def)

lemma bitlen_powi:
  assumes "0 < p"
  shows "(2::rat) powi (bitlen p - 1) \<le> of_int p" "(of_int p :: rat) < 2 powi (bitlen p)"
proof -
  have b: "2 ^ nat (bitlen p - 1) \<le> p" "p < 2 ^ nat (bitlen p)" using bitlen_bounds[OF assms] by auto
  have "1 \<le> bitlen p" using assms bitlen_eq_zero_iff[of p] bitlen_nonneg[of p] by linarith
  then show "(2::rat) powi (bitlen p - 1) \<le> of_int p" "(of_int p :: rat) < 2 powi (bitlen p)"
    using b by (simp_all only: powi_nat of_int_le_iff of_int_less_iff)
qed

lemma ilog2_bounds:
  assumes "0 < x"
  shows "2 powi ilog2 x \<le> x" "x < 2 powi (ilog2 x + 1)"
proof -
  obtain p q where pq: "quotient_of x = (p, q)" by fastforce
  have q: "0 < q" using pq by (rule quotient_of_denom_pos)
  have x: "x = of_int p / of_int q" using pq by (rule quotient_of_div)
  then have p: "0 < p" using assms q by (simp add: zero_less_divide_iff)
  let ?k = "bitlen p - bitlen q"
  have "x < 2 powi (bitlen p) / 2 powi (bitlen q - 1)"
    unfolding x using bitlen_powi[OF p] bitlen_powi[OF q] p q
    by (intro frac_less) auto
  also have "\<dots> = 2 powi (?k + 1)" by (simp add: power_int_diff power_int_add)
  finally have up: "x < 2 powi (?k + 1)" .
  have "2 powi (?k - 1) = (2::rat) powi (bitlen p - 1) / 2 powi (bitlen q)"
    by (simp add: power_int_diff)
  also have "\<dots> \<le> x"
    unfolding x using bitlen_powi[OF p] bitlen_powi[OF q] p q by (intro frac_le) auto
  finally have low: "2 powi (?k - 1) \<le> x" .
  show "2 powi ilog2 x \<le> x" "x < 2 powi (ilog2 x + 1)"
    using up low by (auto simp: ilog2_def pq Let_def not_le)
qed

lemma ilog2_mono:
  assumes "0 < x" "x \<le> y"
  shows "ilog2 x \<le> ilog2 y"
proof -
  have "(2::rat) powi ilog2 x < 2 powi (ilog2 y + 1)"
    using ilog2_bounds(1)[of x] ilog2_bounds(2)[of y] assms by linarith
  then show ?thesis by simp
qed

lemma ilog2_less: "0 < x \<Longrightarrow> x < 2 powi e \<Longrightarrow> ilog2 x < e"
  using ilog2_bounds(1)[of x] powi_less_iff[of "ilog2 x" e] by linarith

lemma round_exp_mono: "0 < x \<Longrightarrow> x \<le> y \<Longrightarrow> round_exp x \<le> round_exp y"
  using ilog2_mono[of x y] by (simp add: round_exp_def)

section \<open>Rounding is monotone and keeps representable values\<close>

lemma round_pos_upper:
  assumes "x \<le> of_int n * 2 powi round_exp x"
  shows "round_pos x \<le> of_int n * 2 powi round_exp x"
proof -
  have "x / 2 powi round_exp x \<le> of_int n" using assms by (simp add: divide_le_eq)
  then have "round_half_even (x / 2 powi round_exp x) \<le> n"
    using round_half_even_mono[of "x / 2 powi round_exp x" "of_int n"] by simp
  then show ?thesis by (simp add: round_pos_def mult_right_mono)
qed

lemma round_pos_lower:
  assumes "of_int n * 2 powi round_exp x \<le> x"
  shows "of_int n * 2 powi round_exp x \<le> round_pos x"
proof -
  have "of_int n \<le> x / 2 powi round_exp x" using assms by (simp add: le_divide_eq)
  then have "n \<le> round_half_even (x / 2 powi round_exp x)"
    using round_half_even_mono[of "of_int n" "x / 2 powi round_exp x"] by simp
  then show ?thesis by (simp add: round_pos_def mult_right_mono)
qed

lemma powi_split: "a \<le> b \<Longrightarrow> (2::rat) powi b = of_int (2 ^ nat (b - a)) * 2 powi a"
  using powi_add[of "b - a" a] powi_nat[of "b - a"] by simp

lemma round_pos_mono:
  assumes "0 < x" "x \<le> y"
  shows "round_pos x \<le> round_pos y"
proof (cases "round_exp x = round_exp y")
  case True
  have "x / 2 powi round_exp x \<le> y / 2 powi round_exp x" using assms by (simp add: divide_right_mono)
  then show ?thesis
    using round_half_even_mono by (simp add: round_pos_def True mult_right_mono)
next
  case False
  with round_exp_mono[OF assms] have less: "round_exp x < round_exp y" by simp
  then have ry: "round_exp y = ilog2 y - 52" and rx: "ilog2 x < ilog2 y"
    by (auto simp: round_exp_def)
  have "x \<le> 2 powi (ilog2 x + 1)" using ilog2_bounds(2)[OF assms(1)] by simp
  also have "\<dots> \<le> 2 powi ilog2 y" using rx by simp
  finally have "x \<le> 2 powi ilog2 y" .
  moreover have sx: "2 powi ilog2 y = of_int (2 ^ nat (ilog2 y - round_exp x)) * (2::rat) powi round_exp x"
    using less ry by (intro powi_split) simp
  ultimately have "round_pos x \<le> 2 powi ilog2 y" using round_pos_upper[of x] by metis
  moreover have "2 powi ilog2 y = of_int (2 ^ nat (ilog2 y - round_exp y)) * (2::rat) powi round_exp y"
    using ry by (intro powi_split) simp
  then have "2 powi ilog2 y \<le> round_pos y"
    using round_pos_lower[of _ y] ilog2_bounds(1)[of y] assms by (metis less_le_trans)
  ultimately show ?thesis by linarith
qed

lemma round_pos_nonneg: "0 \<le> x \<Longrightarrow> 0 \<le> round_pos x"
  using round_pos_lower[of 0 x] by simp

lemma rnd_mono:
  assumes "x \<le> y"
  shows "rnd x \<le> rnd y"
proof -
  consider "0 < x" | "x \<le> 0" "0 \<le> y" | "y < 0" using assms by linarith
  then show ?thesis
  proof cases
    case 1
    then show ?thesis using assms round_pos_mono[of x y] by (simp add: rnd_def)
  next
    case 2
    then show ?thesis using round_pos_nonneg[of y] round_pos_nonneg[of "- x"] by (auto simp: rnd_def)
  next
    case 3
    then show ?thesis using assms round_pos_mono[of "- y" "- x"] by (simp add: rnd_def)
  qed
qed

lemma rnd_0 [simp]: "rnd 0 = 0"
  by (simp add: rnd_def)

lemma rnd_uminus [simp]: "rnd (- x) = - rnd x"
  by (simp add: rnd_def)

text \<open>The values a \<open>float64\<close> can hold (apart from the upper end of the range).\<close>

definition representable :: "rat \<Rightarrow> bool" where
  "representable x \<longleftrightarrow> (\<exists>m e. x = of_int m * 2 powi e \<and> \<bar>m\<bar> \<le> 2 ^ 53 \<and> - 1074 \<le> e)"

lemma round_pos_exact:
  assumes "0 < x" "x = of_int m * 2 powi e" "m < 2 ^ 53" "- 1074 \<le> e"
  shows "round_pos x = x"
proof -
  have "x < of_int (2 ^ 53) * 2 powi e" using assms(2,3) by (simp del: of_int_power of_int_numeral add: mult_strict_right_mono)
  also have "\<dots> = 2 powi (53 + e)" by (simp add: powi_add)
  finally have "ilog2 x < 53 + e" using assms(1) by (rule ilog2_less[rotated])
  then have r: "round_exp x \<le> e" using assms(4) by (simp add: round_exp_def)
  have "x = of_int (m * 2 ^ nat (e - round_exp x)) * 2 powi round_exp x"
    using powi_split[OF r] by (simp add: assms(2))
  then show ?thesis using round_pos_upper[of x] round_pos_lower[of _ x] by (metis order.antisym order.refl)
qed

lemma rnd_representable:
  assumes "representable x"
  shows "rnd x = x"
proof -
  have pos: "round_pos y = y" if y: "0 < y" "representable y" for y
  proof -
    obtain m e where me: "y = of_int m * 2 powi e" "\<bar>m\<bar> \<le> 2 ^ 53" "- 1074 \<le> e"
      using y(2) by (auto simp: representable_def)
    show ?thesis
    proof (cases "m < 2 ^ 53")
      case True
      with me y(1) show ?thesis by (intro round_pos_exact) auto
    next
      case False
      then have "m = 2 ^ 53" using me(2) by simp
      then have "y = of_int (2 ^ 52) * 2 powi (e + 1)" by (simp add: me(1) powi_add)
      with me(3) y(1) show ?thesis by (intro round_pos_exact[of y "2 ^ 52" "e + 1"]) simp_all
    qed
  qed
  obtain m e where "x = of_int m * 2 powi e" "\<bar>m\<bar> \<le> 2 ^ 53" "- 1074 \<le> e"
    using assms by (auto simp: representable_def)
  then have "representable (- x)"
    unfolding representable_def by (intro exI[of _ "- m"] exI[of _ e]) simp
  then show ?thesis using pos[of x] pos[of "- x"] assms by (simp add: rnd_def)
qed

lemma representable_int: "\<bar>n\<bar> \<le> 2 ^ 53 \<Longrightarrow> representable (of_int n)"
  unfolding representable_def by (intro exI[of _ n] exI[of _ 0]) simp

lemma rnd_int [simp]: "\<bar>n\<bar> \<le> 2 ^ 53 \<Longrightarrow> rnd (of_int n) = of_int n"
  by (rule rnd_representable) (rule representable_int)

lemma rnd_nat: "n \<le> 2 ^ 53 \<Longrightarrow> rnd (of_nat n) = of_nat n"
  using rnd_int[of "int n"] by (simp add: abs_le_iff)

lemma rnd_numeral [simp]: "numeral n \<le> (2 ^ 53 :: int) \<Longrightarrow> rnd (numeral n) = numeral n"
  using rnd_int[of "numeral n"] by simp

lemma rnd_1 [simp]: "rnd 1 = 1"
  using rnd_int[of 1] by simp

lemma rnd_nonneg: "0 \<le> x \<Longrightarrow> 0 \<le> rnd x"
  using rnd_mono[of 0 x] by simp

lemma rnd_le: "x \<le> y \<Longrightarrow> representable y \<Longrightarrow> rnd x \<le> y"
  using rnd_mono[of x y] by (simp add: rnd_representable)

lemma rnd_ge: "x \<le> y \<Longrightarrow> representable x \<Longrightarrow> x \<le> rnd y"
  using rnd_mono[of x y] by (simp add: rnd_representable)

section \<open>The relative error of one rounding\<close>

text \<open>One rounding of a normal value multiplies it by at most this factor.\<close>

definition up1 :: rat where
  "up1 = 1 + 2 powi (- 53)"

lemma up1_ge: "1 \<le> up1" "0 < up1"
  by (simp_all add: up1_def add_pos_pos)

definition smallest_normal :: rat where
  "smallest_normal = 2 powi (- 1022)"

lemma smallest_normal_pos: "0 < smallest_normal"
  by (simp add: smallest_normal_def)

lemma rnd_upper:
  assumes "smallest_normal \<le> x"
  shows "rnd x \<le> x * up1"
proof -
  have x: "0 < x" using assms smallest_normal_pos by linarith
  have "(2::rat) powi (- 1022) < 2 powi (ilog2 x + 1)"
    using assms ilog2_bounds(2)[OF x] by (simp only: smallest_normal_def)
  then have "- 1022 < ilog2 x + 1" by (simp only: powi_less_iff)
  then have e: "round_exp x = ilog2 x + (- 52)" by (simp add: round_exp_def)
  let ?p = "2 powi round_exp x :: rat"
  have "of_int (round_half_even (x / ?p)) \<le> x / ?p + 1 / 2"
    using round_half_even_error[of "x / ?p"] by linarith
  then have "round_pos x \<le> (x / ?p + 1 / 2) * ?p"
    unfolding round_pos_def by (intro mult_right_mono) simp_all
  also have "\<dots> = x + ?p * 2 powi (- 1)" by (simp add: field_simps)
  also have "?p * 2 powi (- 1) = 2 powi ilog2 x * 2 powi (- 53)"
    unfolding e powi_add[symmetric] by simp
  also have "x + 2 powi ilog2 x * 2 powi (- 53) \<le> x + x * 2 powi (- 53)"
    using ilog2_bounds(1)[OF x] by (intro add_left_mono mult_right_mono) simp_all
  finally show ?thesis using x by (simp add: rnd_def up1_def algebra_simps)
qed

lemma rnd_upper_le:
  assumes "x \<le> y" "smallest_normal \<le> y"
  shows "rnd x \<le> y * up1"
  using rnd_mono[OF assms(1)] rnd_upper[OF assms(2)] by linarith

section \<open>Finite results\<close>

lemma fl_Fin: "\<bar>x\<bar> \<le> 2 ^ 1023 \<Longrightarrow> fl x = Fin (rnd x)"
proof -
  assume x: "\<bar>x\<bar> \<le> 2 ^ 1023"
  have rep: "representable (2 ^ 1023)"
    unfolding representable_def by (intro exI[of _ 1] exI[of _ 1023]) simp
  have "rnd x \<le> 2 ^ 1023" "rnd (- x) \<le> 2 ^ 1023"
    using x rnd_le[OF _ rep] by (simp_all add: abs_le_iff del: rnd_uminus)
  moreover have "(2::rat) ^ 1023 < 2 ^ 1024" by simp
  ultimately show "fl x = Fin (rnd x)" by (auto simp: fl_def Let_def)
qed

lemma fl_0 [simp]: "fl 0 = Fin 0"
  by (simp add: fl_Fin)

lemma f64_of_int_exact: "\<bar>i\<bar> \<le> 2 ^ 53 \<Longrightarrow> f64_of_int i = Fin (of_int i)"
proof -
  assume i: "\<bar>i\<bar> \<le> 2 ^ 53"
  then have "\<bar>of_int i :: rat\<bar> \<le> of_int (2 ^ 53)" by (metis of_int_abs of_int_le_iff)
  also have "\<dots> \<le> 2 ^ 1023" by simp
  finally show ?thesis using i by (simp add: f64_of_int_def fl_Fin)
qed

end
