(* ===== verification/Metrics_Mw.thy ===== *)
theory Metrics_Mw
  imports Status_Writer Go_Float "HOL-Library.Signed_Division"
begin

text \<open>
  The instrumenting middleware of \<^verbatim>\<open>internal/metrics/middleware.go\<close>. The metric vectors
  belong to the Prometheus client library; the model records the operations applied to them, in
  order, and \<open>gauge\<close> and \<open>counter\<close> read such a history.
\<close>

datatype metric_op =
    GaugeInc string
  | GaugeDec string
  | HistObserve string f64
  | CounterInc string string
  | CounterAdd string string nat
  | GaugeAdd string int
  | ErrorsAdd string string nat

text \<open>\<open>Duration.Seconds\<close>: whole seconds and the rest, added as floating-point numbers.\<close>

definition duration_seconds :: "int \<Rightarrow> f64" where
  "duration_seconds d =
     f64_of_int (d sdiv 1000000000) + f64_of_int (d smod 1000000000) / Fin 1000000000"

definition m_Middleware ::
  "string \<Rightarrow> int \<Rightarrow> 's handler \<Rightarrow> ('s \<times> metric_op list) handler" where
  "m_Middleware gate elapsed next r st =
     (let (s, ops) = st;
          (calls, res, s') = next r s;
          (sw, out) = sw_run sw_New calls;
          ops1 = ops @ [GaugeInc gate]
      in case res of
           Panicked \<Rightarrow> (out, Panicked, (s', ops1))
         | Returned \<Rightarrow>
             (out, Returned,
              (s', ops1 @ [HistObserve gate (duration_seconds elapsed),
                           CounterInc gate (Itoa (sw_status sw)),
                           GaugeDec gate])))"

text \<open>The value of the gauge of a gate, and of a request counter, after a history.\<close>

fun gauge :: "string \<Rightarrow> metric_op list \<Rightarrow> int" where
  "gauge g [] = 0"
| "gauge g (GaugeInc x # ops) = (if x = g then 1 else 0) + gauge g ops"
| "gauge g (GaugeDec x # ops) = (if x = g then -1 else 0) + gauge g ops"
| "gauge g (HistObserve x v # ops) = gauge g ops"
| "gauge g (CounterInc x c # ops) = gauge g ops"
| "gauge g (CounterAdd x c n # ops) = gauge g ops"
| "gauge g (GaugeAdd x n # ops) = (if x = g then n else 0) + gauge g ops"
| "gauge g (ErrorsAdd x e n # ops) = gauge g ops"

fun counter :: "string \<Rightarrow> string \<Rightarrow> metric_op list \<Rightarrow> nat" where
  "counter g c [] = 0"
| "counter g c (CounterInc x y # ops) = (if x = g \<and> y = c then 1 else 0) + counter g c ops"
| "counter g c (GaugeInc x # ops) = counter g c ops"
| "counter g c (GaugeDec x # ops) = counter g c ops"
| "counter g c (HistObserve x v # ops) = counter g c ops"
| "counter g c (CounterAdd x y n # ops) = (if x = g \<and> y = c then n else 0) + counter g c ops"
| "counter g c (GaugeAdd x n # ops) = counter g c ops"
| "counter g c (ErrorsAdd x e n # ops) = counter g c ops"

text \<open>The samples of a gate's histogram, and the error counter of a gate.\<close>

definition samples :: "string \<Rightarrow> metric_op list \<Rightarrow> f64 list" where
  "samples g ops = concat (map (\<lambda>op. case op of HistObserve x v \<Rightarrow> if x = g then [v] else [] | _ \<Rightarrow> []) ops)"

definition errors_total :: "string \<Rightarrow> metric_op list \<Rightarrow> nat" where
  "errors_total g ops = (\<Sum>op\<leftarrow>ops. case op of ErrorsAdd x e n \<Rightarrow> if x = g then n else 0 | _ \<Rightarrow> 0)"

section \<open>collector.go: the series of a gate exist from the start\<close>

definition InitGate :: "string \<Rightarrow> metric_op list" where
  "InitGate gate =
     [CounterAdd gate ''200'' 0, HistObserve gate (Fin 0), GaugeAdd gate 0,
      ErrorsAdd gate ''backend_error'' 0]"

lemma gauge_append [simp]: "gauge g (xs @ ys) = gauge g xs + gauge g ys"
  by (induction xs rule: gauge.induct) auto

lemma counter_append [simp]: "counter g c (xs @ ys) = counter g c xs + counter g c ys"
  by (induction xs rule: counter.induct) auto

lemma m_Middleware_returned:
  assumes "next r s = (calls, Returned, s')"
  shows "m_Middleware gate elapsed next r (s, ops) =
    (snd (sw_run sw_New calls), Returned,
     (s', ops @ [GaugeInc gate, HistObserve gate (duration_seconds elapsed),
                 CounterInc gate (Itoa (sw_status (fst (sw_run sw_New calls)))), GaugeDec gate]))"
  using assms by (simp add: m_Middleware_def Let_def split: prod.splits)

lemma m_Middleware_panicked:
  assumes "next r s = (calls, Panicked, s')"
  shows "m_Middleware gate elapsed next r (s, ops) =
    (snd (sw_run sw_New calls), Panicked, (s', ops @ [GaugeInc gate]))"
  using assms by (simp add: m_Middleware_def Let_def split: prod.splits)

text \<open>A duration in seconds is not below its whole seconds.\<close>

lemma duration_seconds_ge:
  assumes "0 \<le> d" "d < 2 ^ 63"
  shows "\<exists>x. duration_seconds d = Fin x \<and> of_int (d div 1000000000) \<le> x"
proof -
  have s: "d sdiv 1000000000 = d div 1000000000" "d smod 1000000000 = d mod 1000000000"
    using assms(1) by (cases "d = 0"; simp add: signed_divide_int_def signed_modulo_int_def)+
  have q: "0 \<le> d div 1000000000" "d div 1000000000 \<le> 2 ^ 53" using assms by auto
  have m: "0 \<le> d mod 1000000000" "d mod 1000000000 < 1000000000" by simp_all
  have f1: "f64_of_int (d div 1000000000) = Fin (of_int (d div 1000000000))"
    and f2: "f64_of_int (d mod 1000000000) = Fin (of_int (d mod 1000000000))"
    using q m by (intro f64_of_int_exact; simp)+
  let ?q = "of_int (d div 1000000000) :: rat" and ?r = "of_int (d mod 1000000000) / (1000000000 :: rat)"
  have r: "0 \<le> ?r" "?r \<le> 1" using m by (simp_all add: divide_le_eq)
  have r1: "rnd ?r \<le> 1" using rnd_mono[OF r(2)] by simp
  have r0: "0 \<le> rnd ?r" using r(1) by (rule rnd_nonneg)
  have fr: "fl ?r = Fin (rnd ?r)" using r by (intro fl_Fin) (simp add: abs_le_iff)
  have q53: "?q \<le> 2 ^ 53" using q(2) by (metis of_int_le_iff of_int_numeral of_int_power)
  have q0: "0 \<le> ?q" using q(1) by simp
  have "fl (?q + rnd ?r) = Fin (rnd (?q + rnd ?r))"
    using r0 r1 q53 q0 by (intro fl_Fin) (simp add: abs_le_iff)
  moreover have "?q \<le> rnd (?q + rnd ?r)"
    using r0 q by (intro rnd_ge representable_int) simp_all
  ultimately show ?thesis using fr by (simp add: duration_seconds_def s f1 f2)
qed

lemma duration_seconds_nonneg:
  assumes "0 \<le> d" "d < 2 ^ 63"
  shows "\<exists>x. duration_seconds d = Fin x \<and> 0 \<le> x"
proof -
  have "0 \<le> (of_int (d div 1000000000) :: rat)" using assms(1) by simp
  with duration_seconds_ge[OF assms] show ?thesis by (meson order_trans)
qed

section \<open>Many requests of one gate\<close>

text \<open>How many of a list of outcomes are a given one.\<close>

definition count_result :: "outcome \<Rightarrow> outcome list \<Rightarrow> nat" where
  "count_result x rs = length (filter ((=) x) rs)"

lemma samples_simps [simp]:
  "samples g [] = []" "samples g (xs @ ys) = samples g xs @ samples g ys"
  "samples g (op # ops) = (case op of HistObserve x v \<Rightarrow> if x = g then [v] else [] | _ \<Rightarrow> []) @ samples g ops"
  by (simp_all add: samples_def)

lemma errors_total_simps [simp]:
  "errors_total g [] = 0" "errors_total g (xs @ ys) = errors_total g xs + errors_total g ys"
  "errors_total g (op # ops) = (case op of ErrorsAdd x e n \<Rightarrow> if x = g then n else 0 | _ \<Rightarrow> 0) + errors_total g ops"
  by (simp_all add: errors_total_def)

end
