(* ===== verification/Collector.thy ===== *)
theory Collector
  imports Metrics_Mw
begin

text \<open>
  The reading side of \<^verbatim>\<open>internal/metrics/collector.go\<close>: \<open>Snapshots\<close> folds the metric
  families the Prometheus gatherer returns (a parameter: the registry is library code) into one
  record per gate, and \<open>histogramP95\<close> estimates a percentile in \<open>float64\<close> arithmetic.
\<close>

section \<open>The gathered data\<close>

record bucket =
  b_cum :: uint64
  b_upper :: f64

record histogram =
  h_count :: uint64
  h_buckets :: "bucket list"

record metric =
  mt_labels :: "(string \<times> string) list"
  mt_counter :: f64
  mt_histogram :: histogram

record family =
  mf_name :: string
  mf_metrics :: "metric list"

record metrics_snapshot =
  ms_Gate :: string
  ms_ReqTotal :: int64
  ms_ErrTotal :: int64
  ms_P95Ms :: f64

section \<open>The 95th percentile\<close>

definition p95_target :: "uint64 \<Rightarrow> f64" where
  "p95_target n = fl (95 / 100) * f64_of_int (uint n)"

text \<open>
  The body of the loop for the first bucket that reaches the target: interpolation between the
  previous bound and this one.
\<close>

definition interpolate :: "f64 \<Rightarrow> f64 \<Rightarrow> uint64 \<Rightarrow> bucket \<Rightarrow> f64" where
  "interpolate target prevBound prevCount b =
     (let upperBound = b_upper b;
          lowerCount = f64_of_int (uint prevCount);
          upperCount = f64_of_int (uint (b_cum b))
      in if feq upperCount lowerCount then upperBound * Fin 1000
         else (prevBound + (upperBound - prevBound) * (target - lowerCount) / (upperCount - lowerCount)) * Fin 1000)"

fun p95_loop :: "f64 \<Rightarrow> f64 \<Rightarrow> uint64 \<Rightarrow> bucket list \<Rightarrow> f64" where
  "p95_loop target prevBound prevCount [] = prevBound * Fin 1000"
| "p95_loop target prevBound prevCount (b # bs) =
     (if target \<le> f64_of_int (uint (b_cum b)) then interpolate target prevBound prevCount b
      else p95_loop target (b_upper b) (b_cum b) bs)"

definition histogramP95 :: "histogram \<Rightarrow> f64" where
  "histogramP95 h =
     (if h_count h = 0 then 0
      else p95_loop (p95_target (h_count h)) 0 0 (h_buckets h))"

section \<open>Snapshots\<close>

fun labelValue :: "(string \<times> string) list \<Rightarrow> string \<Rightarrow> string" where
  "labelValue [] name = ''''"
| "labelValue ((n, v) # ls) name = (if n = name then v else labelValue ls name)"

text \<open>Go's \<open>m[k] += v\<close>, where an absent key reads as 0.\<close>

definition get0 :: "(string \<rightharpoonup> int64) \<Rightarrow> string \<Rightarrow> int64" where
  "get0 m k = (case m k of None \<Rightarrow> 0 | Some v \<Rightarrow> v)"

definition add_total :: "(string \<rightharpoonup> int64) \<Rightarrow> metric \<Rightarrow> (string \<rightharpoonup> int64)" where
  "add_total tot m =
     (let gate = labelValue (mt_labels m) ''gate''
      in tot(gate \<mapsto> get0 tot gate + int64_of_f64 (mt_counter m)))"

definition put_histogram :: "(string \<rightharpoonup> histogram) \<Rightarrow> metric \<Rightarrow> (string \<rightharpoonup> histogram)" where
  "put_histogram hs m = hs(labelValue (mt_labels m) ''gate'' \<mapsto> mt_histogram m)"

record gathered =
  g_req :: "string \<rightharpoonup> int64"
  g_err :: "string \<rightharpoonup> int64"
  g_hist :: "string \<rightharpoonup> histogram"

definition read_family :: "gathered \<Rightarrow> family \<Rightarrow> gathered" where
  "read_family g mf =
     (if mf_name mf = ''centauri_requests_total'' then
        g\<lparr>g_req := foldl add_total (g_req g) (mf_metrics mf)\<rparr>
      else if mf_name mf = ''centauri_errors_total'' then
        g\<lparr>g_err := foldl add_total (g_err g) (mf_metrics mf)\<rparr>
      else if mf_name mf = ''centauri_request_duration_seconds'' then
        g\<lparr>g_hist := foldl put_histogram (g_hist g) (mf_metrics mf)\<rparr>
      else g)"

definition snap_of :: "gathered \<Rightarrow> string \<Rightarrow> metrics_snapshot" where
  "snap_of g gate =
     \<lparr>ms_Gate = gate, ms_ReqTotal = get0 (g_req g) gate, ms_ErrTotal = get0 (g_err g) gate,
      ms_P95Ms = (case g_hist g gate of None \<Rightarrow> Fin 0 | Some h \<Rightarrow> histogramP95 h)\<rparr>"

text \<open>\<open>None\<close> is an error of the gatherer: Go returns a nil slice.\<close>

definition Snapshots :: "family list option \<Rightarrow> string list \<Rightarrow> metrics_snapshot list" where
  "Snapshots gather gateNames =
     (case gather of
        None \<Rightarrow> []
      | Some mfs \<Rightarrow>
         map (snap_of (foldl read_family \<lparr>g_req = Map.empty, g_err = Map.empty, g_hist = Map.empty\<rparr> mfs))
           gateNames)"

section \<open>Totals are sums over the series of a gate\<close>

definition gate_sum :: "string \<Rightarrow> metric list \<Rightarrow> int64" where
  "gate_sum gate ms =
     (\<Sum>m\<leftarrow>filter (\<lambda>m. labelValue (mt_labels m) ''gate'' = gate) ms. int64_of_f64 (mt_counter m))"

definition series :: "string \<Rightarrow> family list \<Rightarrow> metric list" where
  "series name mfs = concat (map mf_metrics (filter (\<lambda>f. mf_name f = name) mfs))"

lemma gate_sum_simps [simp]:
  "gate_sum g [] = 0" "gate_sum g (xs @ ys) = gate_sum g xs + gate_sum g ys"
  by (simp_all add: gate_sum_def)

lemma get0_add_total:
  "get0 (foldl add_total tot ms) gate = get0 tot gate + gate_sum gate ms"
  by (induction ms arbitrary: tot) (auto simp: gate_sum_def add_total_def get0_def Let_def)

lemma series_Cons:
  "series name (f # fs) = (if mf_name f = name then mf_metrics f else []) @ series name fs"
  by (simp add: series_def)

lemma foldl_read_req:
  "get0 (g_req (foldl read_family g mfs)) gate =
     get0 (g_req g) gate + gate_sum gate (series ''centauri_requests_total'' mfs)"
proof (induction mfs arbitrary: g)
  case (Cons f fs)
  then show ?case by (simp add: read_family_def series_Cons get0_add_total)
qed (simp add: series_def)

lemma foldl_read_err:
  "get0 (g_err (foldl read_family g mfs)) gate =
     get0 (g_err g) gate + gate_sum gate (series ''centauri_errors_total'' mfs)"
proof (induction mfs arbitrary: g)
  case (Cons f fs)
  then show ?case by (simp add: read_family_def series_Cons get0_add_total)
qed (simp add: series_def)

lemma foldl_read_hist:
  "g_hist (foldl read_family g mfs) =
     foldl put_histogram (g_hist g) (series ''centauri_request_duration_seconds'' mfs)"
proof (induction mfs arbitrary: g)
  case (Cons f fs)
  then show ?case by (simp add: read_family_def series_Cons)
qed (simp add: series_def)

text \<open>Of several histograms of one gate the last one counts; a gate without one reads 0.\<close>

lemma put_histogram_last:
  "foldl put_histogram hs ms gate =
     (case filter (\<lambda>m. labelValue (mt_labels m) ''gate'' = gate) ms of
        [] \<Rightarrow> hs gate
      | xs \<Rightarrow> Some (mt_histogram (last xs)))"
  by (induction ms arbitrary: hs) (auto simp: put_histogram_def split: list.splits)

section \<open>The bucket the percentile is read from\<close>

text \<open>
  The loop stops at the first bucket that holds at least the target number of samples; the
  buckets before it hold fewer. So the samples at or below the previous bound are less than 95
  per cent, those at or below its own bound are at least that many.
\<close>

definition prev_bound :: "bucket list \<Rightarrow> nat \<Rightarrow> f64" where
  "prev_bound bs i = (if i = 0 then Fin 0 else b_upper (bs ! (i - 1)))"

definition prev_count :: "bucket list \<Rightarrow> nat \<Rightarrow> uint64" where
  "prev_count bs i = (if i = 0 then 0 else b_cum (bs ! (i - 1)))"

definition reaches :: "f64 \<Rightarrow> bucket \<Rightarrow> bool" where
  "reaches target b \<longleftrightarrow> fle target (f64_of_int (uint (b_cum b)))"

lemma p95_loop_found:
  assumes "i < length bs" "reaches target (bs ! i)" "\<forall>j<i. \<not> reaches target (bs ! j)"
  shows "p95_loop target pb pc bs =
    interpolate target (if i = 0 then pb else b_upper (bs ! (i - 1)))
      (if i = 0 then pc else b_cum (bs ! (i - 1))) (bs ! i)"
  using assms
proof (induction bs arbitrary: i pb pc)
  case (Cons b bs)
  show ?case
  proof (cases i)
    case 0
    with Cons.prems show ?thesis by (simp add: reaches_def)
  next
    case (Suc k)
    have "\<not> reaches target b" using Cons.prems(3) Suc by auto
    moreover have "\<forall>j<k. \<not> reaches target (bs ! j)" using Cons.prems(3) Suc by auto
    ultimately show ?thesis
      using Cons.IH[of k "b_upper b" "b_cum b"] Cons.prems Suc by (cases k) (auto simp: reaches_def)
  qed
qed simp

lemma p95_loop_none:
  assumes "\<forall>b\<in>set bs. \<not> reaches target b"
  shows "p95_loop target pb pc bs = fmul (if bs = [] then pb else b_upper (last bs)) (Fin 1000)"
  using assms
proof (induction bs arbitrary: pb pc)
  case (Cons b bs)
  then have "p95_loop target pb pc (b # bs) = p95_loop target (b_upper b) (b_cum b) bs"
    by (simp add: reaches_def)
  also have "\<dots> = fmul (if bs = [] then b_upper b else b_upper (last bs)) (Fin 1000)"
    by (rule Cons.IH) (use Cons.prems in simp)
  finally show ?case by simp
qed simp

lemma histogramP95_found:
  assumes "h_count h \<noteq> 0" "i < length (h_buckets h)"
    "reaches (p95_target (h_count h)) (h_buckets h ! i)"
    "\<forall>j<i. \<not> reaches (p95_target (h_count h)) (h_buckets h ! j)"
  shows "histogramP95 h =
    interpolate (p95_target (h_count h)) (prev_bound (h_buckets h) i) (prev_count (h_buckets h) i)
      (h_buckets h ! i)"
  using p95_loop_found[OF assms(2-4)] assms(1) by (simp add: histogramP95_def prev_bound_def prev_count_def)

lemma first_reaching:
  assumes "\<exists>b\<in>set bs. reaches t b"
  shows "\<exists>i<length bs. reaches t (bs ! i) \<and> (\<forall>j<i. \<not> reaches t (bs ! j))"
proof -
  from assms obtain k where k: "k < length bs" "reaches t (bs ! k)" by (auto simp: in_set_conv_nth)
  then have "\<exists>i. i < length bs \<and> reaches t (bs ! i)" by blast
  then obtain i where i: "i < length bs" "reaches t (bs ! i)"
    "\<And>j. j < i \<Longrightarrow> \<not> (j < length bs \<and> reaches t (bs ! j))"
    using exists_least_iff[of "\<lambda>i. i < length bs \<and> reaches t (bs ! i)"] by blast
  then have "\<forall>j<i. \<not> reaches t (bs ! j)" by (meson less_trans)
  with i(1,2) show ?thesis by blast
qed

section \<open>Bounds\<close>

text \<open>
  Bucket bounds and counts in the range where nothing overflows or is subnormal: nonnegative,
  representable, increasing by at least \<open>2^-900\<close>, at most \<open>2^900\<close>, and counts a double
  holds exactly.
\<close>

definition tiny :: rat where
  "tiny = 2 powi (- 900)"

lemma tiny_normal: "smallest_normal \<le> tiny" "0 < tiny" "representable tiny"
proof -
  show "smallest_normal \<le> tiny" by (simp add: smallest_normal_def tiny_def del: power_int_minus)
  show "0 < tiny" by (simp add: tiny_def)
  show "representable tiny"
    unfolding representable_def tiny_def by (intro exI[of _ 1] exI[of _ "- 900"]) simp
qed

lemma interp_bounds:
  assumes "rnd pb = pb" "0 \<le> pb" "pb + tiny \<le> ub" "0 \<le> e" "e \<le> c" "1 \<le> c"
  defines "d \<equiv> rnd (ub - pb)"
  defines "q \<equiv> rnd (rnd (d * e) / c)"
  shows "0 \<le> d" "0 \<le> q" "pb \<le> rnd (pb + q)" "rnd (pb + q) \<le> ub * up1 ^ 4"
    "d \<le> (ub - pb) * up1" "q \<le> (ub - pb) * up1 ^ 3"
proof -
  have gap: "tiny \<le> ub - pb" using assms(3) by linarith
  have d_low: "tiny \<le> d" unfolding d_def using gap tiny_normal(3) by (rule rnd_ge)
  then show d0: "0 \<le> d" using tiny_normal(2) by linarith
  show d_up: "d \<le> (ub - pb) * up1"
    unfolding d_def using gap tiny_normal(1) by (intro rnd_upper) linarith
  have dc: "smallest_normal \<le> d * c"
    using mult_mono[OF d_low assms(6)] tiny_normal d0 by (auto intro: order_trans)
  have "rnd (d * e) \<le> (d * c) * up1"
    using d0 assms(5) dc by (intro rnd_upper_le mult_left_mono)
  then have m: "rnd (d * e) / c \<le> d * up1" using assms(6) by (simp add: divide_le_eq mult_ac)
  have m0: "0 \<le> rnd (d * e) / c" using d0 assms(4,6) by (simp add: rnd_nonneg)
  then show q0: "0 \<le> q" unfolding q_def by (rule rnd_nonneg)
  have du: "smallest_normal \<le> d * up1"
    using mult_mono[OF d_low up1_ge(1)] tiny_normal d0 by (auto intro: order_trans)
  have "q \<le> (d * up1) * up1" unfolding q_def by (rule rnd_upper_le[OF m du])
  also have "\<dots> \<le> ((ub - pb) * up1 * up1) * up1"
    using d_up up1_ge by (intro mult_right_mono) simp_all
  finally show q_up: "q \<le> (ub - pb) * up1 ^ 3" by (simp add: numeral_eq_Suc mult_ac)
  show "pb \<le> rnd (pb + q)" using rnd_mono[of pb "pb + q"] q0 assms(1) by simp
  have u3: "1 \<le> up1 ^ 3" using up1_ge by (simp add: one_le_power)
  have "pb + q \<le> pb * up1 ^ 3 + (ub - pb) * up1 ^ 3"
    using q_up mult_left_mono[OF u3 assms(2)] by simp
  then have le: "pb + q \<le> ub * up1 ^ 3" by (simp add: algebra_simps)
  have "tiny \<le> ub" using gap assms(2) by linarith
  then have "tiny * 1 \<le> ub * up1 ^ 3" using u3 tiny_normal(2) by (intro mult_mono) auto
  then have "smallest_normal \<le> ub * up1 ^ 3" using tiny_normal(1) by linarith
  from rnd_upper_le[OF le this] show "rnd (pb + q) \<le> ub * up1 ^ 4"
    by (simp add: numeral_eq_Suc mult_ac)
qed

definition max_bound :: rat where
  "max_bound = 2 ^ 900"

lemma max_bound_le: "x \<le> max_bound * 2 ^ 100 \<Longrightarrow> x \<le> 2 ^ 1023"
  by (simp add: max_bound_def)

lemma up1_small: "up1 ^ n \<le> 2 ^ n"
  by (intro power_mono) (simp_all add: up1_def add_nonneg_nonneg)

lemma fl_small: "0 \<le> x \<Longrightarrow> x \<le> max_bound * 2 ^ 100 \<Longrightarrow> fl x = Fin (rnd x)"
  using max_bound_le[of x] by (intro fl_Fin) (simp del: power_numeral)

lemma max_bound_pos: "0 < max_bound"
  by (simp add: max_bound_def)

lemma up1_powers: "1 \<le> up1 ^ 4" "up1 ^ 4 \<le> 16" "up1 \<le> 2" "up1 ^ 3 \<le> 8"
  using up1_ge up1_small[of 4] up1_small[of 1] up1_small[of 3] by (simp_all add: one_le_power)

text \<open>The last operation: seconds to milliseconds.\<close>

lemma to_millis:
  assumes "0 \<le> pb" "tiny \<le> ub" "ub \<le> max_bound" "pb \<le> s" "s \<le> ub * up1 ^ 4"
  shows "\<exists>r. fmul (Fin s) (Fin 1000) = Fin r \<and> rnd (pb * 1000) \<le> r \<and> r \<le> ub * 1000 * up1 ^ 5"
proof -
  have ub0: "0 \<le> ub" using assms(2) tiny_normal(2) by linarith
  have "ub * up1 ^ 4 \<le> max_bound * 16"
    using assms(3) up1_powers ub0 max_bound_pos by (intro mult_mono) auto
  then have "s * 1000 \<le> max_bound * 2 ^ 100" using assms(5) max_bound_pos by simp
  then have f: "fmul (Fin s) (Fin 1000) = Fin (rnd (s * 1000))"
    using assms(1,4) by (simp add: fl_small)
  have "rnd (pb * 1000) \<le> rnd (s * 1000)" using assms(4) by (intro rnd_mono) simp
  moreover have "rnd (s * 1000) \<le> (ub * up1 ^ 4 * 1000) * up1"
  proof (rule rnd_upper_le)
    have "tiny * 1 \<le> ub * up1 ^ 4" using assms(2) ub0 up1_powers tiny_normal(2) by (intro mult_mono) auto
    then show "smallest_normal \<le> ub * up1 ^ 4 * 1000" using tiny_normal(1,2) by linarith
  qed (use assms(5) in simp)
  ultimately show ?thesis unfolding f by (simp add: numeral_eq_Suc mult_ac)
qed

text \<open>The differences of the counts are exact or rounded once.\<close>

lemma count_differences:
  assumes "0 \<le> l" "l < h" "h \<le> 2 ^ 53" "of_int l \<le> t" "t \<le> of_int h"
  defines "c \<equiv> of_int (h - l)" and "e \<equiv> rnd (t - of_int l)"
  shows "fsub (Fin (of_int h)) (Fin (of_int l)) = Fin c" "fsub (Fin t) (Fin (of_int l)) = Fin e"
    "1 \<le> c" "c \<le> 2 ^ 53" "0 \<le> e" "e \<le> c"
proof -
  have hl: "1 \<le> h - l" "h - l \<le> 2 ^ 53" using assms(1-3) by simp_all
  then show c1: "1 \<le> c" unfolding c_def by linarith
  have "of_int (h - l) \<le> (of_int (2 ^ 53) :: rat)" using hl(2) by (simp only: of_int_le_iff)
  then show c53: "c \<le> 2 ^ 53" by (simp add: c_def)
  have rc: "rnd c = c" unfolding c_def using hl by (intro rnd_int) simp
  have tl: "0 \<le> t - of_int l" "t - of_int l \<le> c" using assms(4,5) by (simp_all add: c_def)
  show "0 \<le> e" "e \<le> c" using rnd_nonneg[OF tl(1)] rnd_mono[OF tl(2)] by (simp_all add: e_def rc)
  have big: "c \<le> 2 ^ 1023" "t - of_int l \<le> 2 ^ 1023"
    using c53 tl(2) by (simp_all add: order_trans[of _ "2 ^ 53"])
  show "fsub (Fin t) (Fin (of_int l)) = Fin e" using tl(1) big(2) by (simp add: fsub_def e_def fl_Fin)
  have "fl c = Fin c" using c1 rc big(1) by (simp add: fl_Fin)
  then show "fsub (Fin (of_int h)) (Fin (of_int l)) = Fin c" by (simp add: fsub_def c_def)
qed

text \<open>No operation of the interpolation overflows.\<close>

lemma interp_no_overflow:
  assumes "rnd pb = pb" "0 \<le> pb" "pb + tiny \<le> ub" "ub \<le> max_bound" "0 \<le> e" "e \<le> c" "1 \<le> c" "c \<le> 2 ^ 53"
  defines "d \<equiv> rnd (ub - pb)"
  shows "fadd (Fin pb) (fdiv (fmul (fsub (Fin ub) (Fin pb)) (Fin e)) (Fin c)) =
    Fin (rnd (pb + rnd (rnd (d * e) / c)))"
proof -
  note ib = interp_bounds[OF assms(1-3,5-7), folded d_def]
  note M = max_bound_pos
  have gap: "0 \<le> ub - pb" "ub - pb \<le> max_bound" using assms(2-4) tiny_normal(2) by linarith+
  have big: "max_bound * 2 ^ 53 * 4 \<le> max_bound * 2 ^ 100" "max_bound \<le> max_bound * 2 ^ 100"
    using M by simp_all
  have d_max: "d \<le> max_bound * 2"
    using ib(5) mult_mono[OF gap(2) up1_powers(3)] M up1_ge by linarith
  have de: "0 \<le> d * e" "d * e \<le> max_bound * 2 * 2 ^ 53"
    using ib(1) assms(5,6,8) d_max M by (simp, intro mult_mono) auto
  have "rnd (d * e) \<le> (max_bound * 2 * 2 ^ 53) * up1"
  proof (rule rnd_upper_le[OF de(2)])
    have "smallest_normal \<le> max_bound" using tiny_normal(1) assms(2-4) by linarith
    then show "smallest_normal \<le> max_bound * 2 * 2 ^ 53" using M by simp
  qed
  also have "\<dots> \<le> (max_bound * 2 * 2 ^ 53) * 2" using up1_powers M by (intro mult_left_mono) auto
  finally have "rnd (d * e) \<le> max_bound * 2 ^ 100" using big(1) by simp
  moreover have "rnd (d * e) / c \<le> rnd (d * e)"
    using assms(7) rnd_nonneg[OF de(1)] by (simp add: divide_le_eq mult_le_cancel_left1)
  ultimately have m: "0 \<le> rnd (d * e) / c" "rnd (d * e) / c \<le> max_bound * 2 ^ 100"
    using rnd_nonneg[OF de(1)] assms(7) by simp_all
  have f5: "fdiv (Fin (rnd (d * e))) (Fin c) = Fin (rnd (rnd (d * e) / c))"
    using assms(7) m by (simp add: fl_small)
  have "(ub - pb) * up1 ^ 3 \<le> max_bound * 8" using gap up1_powers M up1_ge by (intro mult_mono) auto
  then have f6: "fadd (Fin pb) (Fin (rnd (rnd (d * e) / c))) = Fin (rnd (pb + rnd (rnd (d * e) / c)))"
    using assms(2-4) ib(2,6) M gap by (simp add: fl_small)
  have f1: "fsub (Fin ub) (Fin pb) = Fin d" using gap big by (simp add: fsub_def d_def fl_small)
  have f4: "fmul (Fin d) (Fin e) = Fin (rnd (d * e))" using de big by (simp add: fl_small)
  show ?thesis unfolding f1 f4 f5 f6 ..
qed

lemma interpolate_bounds:
  assumes pb: "rnd pb = pb" "0 \<le> pb" "pb + tiny \<le> ub" "ub \<le> max_bound" "b_upper b = Fin ub"
    and cnt: "uint (b_cum b) \<le> 2 ^ 53"
    and t: "of_int (uint pc) \<le> t" "t \<le> of_int (uint (b_cum b))"
  shows "\<exists>r. interpolate (Fin t) (Fin pb) pc b = Fin r \<and> rnd (pb * 1000) \<le> r \<and> r \<le> ub * 1000 * up1 ^ 5"
proof -
  define l where "l = uint pc"
  define h where "h = uint (b_cum b)"
  note lh = l_def[symmetric] h_def[symmetric]
  have l0: "0 \<le> l" by (simp add: l_def)
  have lc_uc: "l \<le> h" using order_trans[OF t] unfolding lh by (simp only: of_int_le_iff)
  have fl: "f64_of_int l = Fin (of_int l)" "f64_of_int h = Fin (of_int h)"
    using lc_uc cnt l0 unfolding lh by (simp_all add: f64_of_int_exact)
  have ub: "tiny \<le> ub" using pb(2,3) by linarith
  show ?thesis
  proof (cases "l = h")
    case True
    then have "interpolate (Fin t) (Fin pb) pc b = fmul (Fin ub) (Fin 1000)"
      by (simp add: interpolate_def lh fl pb(5) feq_def Let_def)
    moreover have "ub * 1 \<le> ub * up1 ^ 4"
      using up1_powers ub tiny_normal(2) by (intro mult_left_mono) linarith+
    ultimately show ?thesis using to_millis[OF pb(2) ub pb(4), of ub] pb(3) tiny_normal(2) by simp
  next
    case False
    then have "l < h" using lc_uc by simp
    note cd = count_differences[OF l0 this _ t[unfolded lh], unfolded lh, OF cnt[unfolded lh]]
    note ib = interp_bounds[OF pb(1-3) cd(5,6,3)]
    have "\<not> feq (Fin (of_int h)) (Fin (of_int l))" using \<open>l < h\<close> by (simp add: feq_def)
    then show ?thesis using to_millis[OF pb(2) ub pb(4) ib(3,4)]
      unfolding interpolate_def lh fl pb(5) Let_def f64_ops cd(1,2) interp_no_overflow[OF pb(1-4) cd(5,6,3,4)]
      by (simp del: fmul.simps fadd.simps fdiv.simps)
  qed
qed

text \<open>A histogram of that range, checkable by evaluation.\<close>

fun good_from :: "rat \<Rightarrow> bucket list \<Rightarrow> bool" where
  "good_from pb [] = True"
| "good_from pb (b # bs) =
     (case b_upper b of
        Fin ub \<Rightarrow> rnd ub = ub \<and> pb + tiny \<le> ub \<and> ub \<le> max_bound \<and> uint (b_cum b) \<le> 2 ^ 53 \<and>
          good_from ub bs
      | _ \<Rightarrow> False)"

definition good_histogram :: "histogram \<Rightarrow> bool" where
  "good_histogram h \<longleftrightarrow> uint (h_count h) \<le> 2 ^ 53 \<and> good_from 0 (h_buckets h)"

lemma good_from_nth:
  assumes "good_from pb bs" "rnd pb = pb" "0 \<le> pb" "i < length bs"
  shows "\<exists>lo hi. (if i = 0 then Fin pb else b_upper (bs ! (i - 1))) = Fin lo \<and> b_upper (bs ! i) = Fin hi \<and>
    rnd lo = lo \<and> 0 \<le> lo \<and> lo + tiny \<le> hi \<and> hi \<le> max_bound \<and> uint (b_cum (bs ! i)) \<le> 2 ^ 53"
  using assms
proof (induction bs arbitrary: pb i)
  case (Cons b bs)
  from Cons.prems(1) obtain ub where ub: "b_upper b = Fin ub" "rnd ub = ub" "pb + tiny \<le> ub"
    "ub \<le> max_bound" "uint (b_cum b) \<le> 2 ^ 53" "good_from ub bs"
    by (auto split: f64.splits)
  show ?case
  proof (cases i)
    case 0
    with ub Cons.prems show ?thesis by simp
  next
    case (Suc k)
    have "0 \<le> ub" using ub(3) Cons.prems(3) tiny_normal(2) by linarith
    with Cons.IH[OF ub(6,2), of k] Cons.prems(4) Suc ub(1) show ?thesis by (cases k) auto
  qed
qed simp

lemma p95_target_Fin:
  assumes "uint n \<le> 2 ^ 53"
  shows "\<exists>t. p95_target n = Fin t \<and> 0 \<le> t"
proof -
  define m where "m = uint n"
  have m: "0 \<le> m" "m \<le> 2 ^ 53" using assms by (simp_all add: m_def)
  have f: "fl (95 / 100) = Fin (rnd (95 / 100))" by (rule fl_Fin) simp
  have c: "0 \<le> rnd (95 / 100)" "rnd (95 / 100) \<le> 1"
    using rnd_mono[of "95 / 100" 1] by (simp_all add: rnd_nonneg)
  have "(of_int m :: rat) \<le> of_int (2 ^ 53)" using m(2) by (simp only: of_int_le_iff)
  then have m': "(0::rat) \<le> of_int m" "(of_int m :: rat) \<le> 2 ^ 53" using m(1) by simp_all
  have "rnd (95 / 100) * of_int m \<le> 1 * 2 ^ 53" using c m' by (intro mult_mono) auto
  then have le: "rnd (95 / 100) * of_int m \<le> 2 ^ 1023" by (rule order_trans) simp
  have nn: "0 \<le> rnd (95 / 100) * of_int m" using c m' by simp
  have g: "f64_of_int m = Fin (of_int m)" using m by (intro f64_of_int_exact) simp
  have "p95_target n = fl (rnd (95 / 100) * of_int m)"
    unfolding p95_target_def f m_def[symmetric] g by simp
  also have "\<dots> = Fin (rnd (rnd (95 / 100) * of_int m))" using nn le by (intro fl_Fin) simp
  finally show ?thesis using rnd_nonneg[OF nn] by blast
qed

lemma histogramP95_in_bucket:
  assumes "good_histogram h" "h_count h \<noteq> 0" "i < length (h_buckets h)"
    "reaches (p95_target (h_count h)) (h_buckets h ! i)"
    "\<forall>j<i. \<not> reaches (p95_target (h_count h)) (h_buckets h ! j)"
  shows "\<exists>lo hi r. prev_bound (h_buckets h) i = Fin lo \<and> b_upper (h_buckets h ! i) = Fin hi \<and>
    histogramP95 h = Fin r \<and> rnd (lo * 1000) \<le> r \<and> r \<le> hi * 1000 * up1 ^ 5"
proof -
  let ?bs = "h_buckets h" and ?t = "p95_target (h_count h)"
  from assms(1) obtain t where t: "?t = Fin t" "0 \<le> t"
    using p95_target_Fin[of "h_count h"] by (auto simp: good_histogram_def)
  have gf: "good_from 0 ?bs" using assms(1) by (simp add: good_histogram_def)
  from good_from_nth[OF gf _ _ assms(3)]
  obtain lo hi where b: "prev_bound ?bs i = Fin lo" "b_upper (?bs ! i) = Fin hi" "rnd lo = lo" "0 \<le> lo"
    "lo + tiny \<le> hi" "hi \<le> max_bound" "uint (b_cum (?bs ! i)) \<le> 2 ^ 53"
    by (auto simp: prev_bound_def)
  have exact: "f64_of_int (uint (b_cum (?bs ! j))) = Fin (of_int (uint (b_cum (?bs ! j))))"
    if "j \<le> i" for j
  proof (rule f64_of_int_exact)
    have "uint (b_cum (?bs ! j)) \<le> 2 ^ 53"
      using good_from_nth[OF gf, of j] that assms(3) by auto
    then show "\<bar>uint (b_cum (?bs ! j))\<bar> \<le> 2 ^ 53" by simp
  qed
  have up: "t \<le> of_int (uint (b_cum (?bs ! i)))"
    using assms(4) exact[of i] by (simp add: reaches_def t)
  have low: "of_int (uint (prev_count ?bs i)) \<le> t"
  proof (cases i)
    case 0
    then show ?thesis using t(2) by (simp add: prev_count_def)
  next
    case (Suc k)
    then have "\<not> reaches ?t (?bs ! k)" using assms(5) by simp
    then have "of_int (uint (b_cum (?bs ! k))) < t" using exact[of k] Suc by (simp add: reaches_def t)
    then show ?thesis using Suc by (simp add: prev_count_def)
  qed
  from interpolate_bounds[OF b(3-6,2,7) low up] histogramP95_found[OF assms(2-5)] b(1,2)
  show ?thesis by (auto simp: t(1))
qed

end
