(* ===== verification/Store.thy ===== *)
theory Store
  imports Collector
begin

text \<open>
  \<^verbatim>\<open>internal/metrics/store.go\<close>. The SQL engine is a driver behind \<open>database/sql\<close>, so
  the operations are defined over an engine: a record of the two calls the store makes. Each
  constructor of \<open>sql\<close> is one statement text of the source. \<open>sql_ok\<close> states what the store
  relies on: a failed statement changes nothing, and the statements on \<open>threat_signals\<close> mean
  what SQLite documents of them (\<open>AUTOINCREMENT\<close> ids grow, a negative \<open>LIMIT\<close> is none).
\<close>

section \<open>Rows and statements\<close>

record threat_signal =
  ts_ID :: int64
  ts_Ts :: int64
  ts_Gate :: string
  ts_Kind :: string
  ts_Level :: string
  ts_Summary :: string
  ts_Reasoning :: string
  ts_Action :: string
  ts_Resolved :: bool

text \<open>A row of \<open>threat_signals\<close>: the columns of the struct, \<open>resolved\<close> still an integer.\<close>

record sig_row =
  r_id :: int64
  r_ts :: int64
  r_gate :: string
  r_kind :: string
  r_level :: string
  r_summary :: string
  r_reasoning :: string
  r_action :: string
  r_resolved :: int64

datatype sql =
    Create_request_stats
  | Create_events
  | Create_threat_signals
  | Insert_signal int64 string string string string string string
  | Update_resolved int64
  | Insert_stats int64 string int64 int64 f64
  | Insert_event int64 string string string

record 'db engine =
  sq_exec :: "sql \<Rightarrow> 'db \<Rightarrow> string option \<times> 'db"
  sq_select :: "int64 \<Rightarrow> 'db \<Rightarrow> string + sig_row list"

section \<open>The operations\<close>

text \<open>An error is \<open>Some\<close> message; the state comes back in both cases.\<close>

definition SaveSignal :: "'db engine \<Rightarrow> int64 \<Rightarrow> threat_signal \<Rightarrow> 'db \<Rightarrow> string option \<times> 'db" where
  "SaveSignal E now sig db =
     sq_exec E (Insert_signal now (ts_Gate sig) (ts_Kind sig) (ts_Level sig) (ts_Summary sig)
       (ts_Reasoning sig) (ts_Action sig)) db"

definition scan_row :: "sig_row \<Rightarrow> threat_signal" where
  "scan_row r =
     \<lparr>ts_ID = r_id r, ts_Ts = r_ts r, ts_Gate = r_gate r, ts_Kind = r_kind r, ts_Level = r_level r,
      ts_Summary = r_summary r, ts_Reasoning = r_reasoning r, ts_Action = r_action r,
      ts_Resolved = (r_resolved r \<noteq> 0)\<rparr>"

definition ListSignals :: "'db engine \<Rightarrow> int64 \<Rightarrow> 'db \<Rightarrow> string + threat_signal list" where
  "ListSignals E limit db =
     (case sq_select E limit db of Inl e \<Rightarrow> Inl e | Inr rows \<Rightarrow> Inr (map scan_row rows))"

definition ResolveSignal :: "'db engine \<Rightarrow> int64 \<Rightarrow> 'db \<Rightarrow> string option \<times> 'db" where
  "ResolveSignal E i db = sq_exec E (Update_resolved i) db"

definition Flush :: "'db engine \<Rightarrow> int64 \<Rightarrow> metrics_snapshot \<Rightarrow> 'db \<Rightarrow> string option \<times> 'db" where
  "Flush E now snap db =
     sq_exec E (Insert_stats now (ms_Gate snap) (ms_ReqTotal snap) (ms_ErrTotal snap) (ms_P95Ms snap)) db"

definition LogEvent :: "'db engine \<Rightarrow> int64 \<Rightarrow> string \<Rightarrow> string \<Rightarrow> string \<Rightarrow> 'db \<Rightarrow> string option \<times> 'db" where
  "LogEvent E now gate kind detail db = sq_exec E (Insert_event now gate kind detail) db"

section \<open>What the statements mean\<close>

definition sql_limit :: "int64 \<Rightarrow> 'a list \<Rightarrow> 'a list" where
  "sql_limit n xs = (if sint n < 0 then xs else take (nat (sint n)) xs)"

definition unresolved_desc :: "sig_row list \<Rightarrow> sig_row list" where
  "unresolved_desc rows = rev (sort_key (\<lambda>r. sint (r_id r)) (filter (\<lambda>r. r_resolved r = 0) rows))"

definition mark :: "int64 \<Rightarrow> sig_row \<Rightarrow> sig_row" where
  "mark i r = (if r_id r = i then r\<lparr>r_resolved := 1\<rparr> else r)"

definition new_row :: "int64 \<Rightarrow> int64 \<Rightarrow> threat_signal \<Rightarrow> sig_row" where
  "new_row i now sig =
     \<lparr>r_id = i, r_ts = now, r_gate = ts_Gate sig, r_kind = ts_Kind sig, r_level = ts_Level sig,
      r_summary = ts_Summary sig, r_reasoning = ts_Reasoning sig, r_action = ts_Action sig, r_resolved = 0\<rparr>"

definition sql_ok :: "'db engine \<Rightarrow> ('db \<Rightarrow> sig_row list) \<Rightarrow> bool" where
  "sql_ok E rows \<longleftrightarrow>
     (\<forall>st db e db'. sq_exec E st db = (Some e, db') \<longrightarrow> rows db' = rows db) \<and>
     (\<forall>now g k l s r a db db'.
        sq_exec E (Insert_signal now g k l s r a) db = (None, db') \<longrightarrow>
        (\<exists>i. (\<forall>x\<in>set (rows db). sint (r_id x) < sint i) \<and>
           rows db' = rows db @
             [\<lparr>r_id = i, r_ts = now, r_gate = g, r_kind = k, r_level = l, r_summary = s,
               r_reasoning = r, r_action = a, r_resolved = 0\<rparr>])) \<and>
     (\<forall>i db db'. sq_exec E (Update_resolved i) db = (None, db') \<longrightarrow> rows db' = map (mark i) (rows db)) \<and>
     (\<forall>now g a b p db db'. sq_exec E (Insert_stats now g a b p) db = (None, db') \<longrightarrow> rows db' = rows db) \<and>
     (\<forall>now g k d db db'. sq_exec E (Insert_event now g k d) db = (None, db') \<longrightarrow> rows db' = rows db) \<and>
     (\<forall>n db xs. sq_select E n db = Inr xs \<longrightarrow> xs = sql_limit n (unresolved_desc (rows db)))"

lemma sql_okD:
  assumes "sql_ok E rows"
  shows "sq_exec E st db = (Some e, db') \<Longrightarrow> rows db' = rows db"
    and "SaveSignal E now sig db = (None, db') \<Longrightarrow>
      \<exists>i. (\<forall>x\<in>set (rows db). sint (r_id x) < sint i) \<and> rows db' = rows db @ [new_row i now sig]"
    and "ResolveSignal E i db = (None, db') \<Longrightarrow> rows db' = map (mark i) (rows db)"
    and "sq_select E n db = Inr xs \<Longrightarrow> xs = sql_limit n (unresolved_desc (rows db))"
    and "Flush E now snap db = (None, db') \<Longrightarrow> rows db' = rows db"
    and "LogEvent E now g k d db = (None, db') \<Longrightarrow> rows db' = rows db"
  using assms unfolding sql_ok_def SaveSignal_def ResolveSignal_def Flush_def LogEvent_def new_row_def
  by (elim conjE, simp)+

lemma ListSignals_ok:
  "sql_ok E rows \<Longrightarrow> ListSignals E n db = Inr sigs \<Longrightarrow>
   sigs = map scan_row (sql_limit n (unresolved_desc (rows db)))"
  using sql_okD(4)[of E rows n db] by (auto simp: ListSignals_def split: sum.splits)

section \<open>A store of signals, as its clients see it\<close>

text \<open>
  The clients (the Oracle and the HTTP handler) save, list and resolve. The contract speaks of
  the unresolved signals, newest first: saving puts one in front, resolving takes one out,
  listing returns a prefix.
\<close>

locale signal_store =
  fixes save :: "threat_signal \<Rightarrow> 'db \<Rightarrow> string option \<times> 'db"
    and listing :: "int64 \<Rightarrow> 'db \<Rightarrow> string + threat_signal list"
    and resolve :: "int64 \<Rightarrow> 'db \<Rightarrow> string option \<times> 'db"
    and active :: "'db \<Rightarrow> threat_signal list"
    and wf :: "'db \<Rightarrow> bool"
  assumes save_ok: "wf db \<Longrightarrow> save sig db = (None, db') \<Longrightarrow>
      \<exists>t. active db' = t # active db \<and> ts_Gate t = ts_Gate sig \<and> ts_Kind t = ts_Kind sig \<and>
        ts_Level t = ts_Level sig \<and> ts_Summary t = ts_Summary sig \<and> ts_Reasoning t = ts_Reasoning sig \<and>
        ts_Action t = ts_Action sig \<and> \<not> ts_Resolved t"
    and save_wf: "wf db \<Longrightarrow> wf (snd (save sig db))"
    and save_err: "wf db \<Longrightarrow> save sig db = (Some e, db') \<Longrightarrow> active db' = active db"
    and resolve_ok: "wf db \<Longrightarrow> resolve i db = (None, db') \<Longrightarrow>
      active db' = filter (\<lambda>t. ts_ID t \<noteq> i) (active db)"
    and resolve_wf: "wf db \<Longrightarrow> wf (snd (resolve i db))"
    and resolve_err: "wf db \<Longrightarrow> resolve i db = (Some e, db') \<Longrightarrow> active db' = active db"
    and listing_ok: "wf db \<Longrightarrow> listing n db = Inr sigs \<Longrightarrow> sigs = sql_limit n (active db)"
begin

text \<open>Resolving twice is resolving once, and a resolved signal is never listed again.\<close>

lemma resolve_gone:
  assumes "wf db" "resolve i db = (None, db1)" "listing n db1 = Inr sigs"
  shows "i \<notin> ts_ID ` set sigs"
proof -
  have "wf db1" using resolve_wf[OF assms(1), of i] assms(2) by simp
  then have "sigs = sql_limit n (active db1)" using assms(3) by (rule listing_ok)
  moreover have "i \<notin> ts_ID ` set (active db1)" using resolve_ok[OF assms(1,2)] by auto
  ultimately show ?thesis by (auto simp: sql_limit_def dest: in_set_takeD split: if_splits)
qed

lemma resolve_twice:
  assumes "wf db" "resolve i db = (None, db1)" "resolve i db1 = (None, db2)"
  shows "active db2 = active db1"
proof -
  have w: "wf db1" using resolve_wf[OF assms(1), of i] assms(2) by simp
  then show ?thesis using resolve_ok[OF assms(1,2)] resolve_ok[OF w assms(3)] by simp
qed

lemma saved_listed_first:
  assumes "wf db" "save sig db = (None, db1)" "listing n db1 = Inr sigs" "0 < sint n"
  shows "\<exists>t rest. sigs = t # rest \<and> ts_Summary t = ts_Summary sig \<and> ts_Kind t = ts_Kind sig \<and>
    ts_Gate t = ts_Gate sig \<and> ts_Level t = ts_Level sig"
proof -
  have w: "wf db1" using save_wf[OF assms(1), of sig] assms(2) by simp
  then have "sigs = sql_limit n (active db1)" using assms(3) by (rule listing_ok)
  then show ?thesis using save_ok[OF assms(1,2)] assms(4) by (cases "nat (sint n)") (auto simp: sql_limit_def)
qed

end

section \<open>The store provides it\<close>

definition st_active :: "sig_row list \<Rightarrow> threat_signal list" where
  "st_active rows = map scan_row (unresolved_desc rows)"

definition st_wf :: "sig_row list \<Rightarrow> bool" where
  "st_wf rows \<longleftrightarrow> sorted_wrt (<) (map (\<lambda>r. sint (r_id r)) rows)"

lemma st_wf_sorted: "st_wf rows \<Longrightarrow> sorted (map (\<lambda>r. sint (r_id r)) (filter P rows))"
  unfolding st_wf_def
  by (induction rows) (auto simp: less_imp_le)

lemma unresolved_desc_wf: "st_wf rows \<Longrightarrow> unresolved_desc rows = rev (filter (\<lambda>r. r_resolved r = 0) rows)"
  unfolding unresolved_desc_def by (simp add: sort_key_id_if_sorted st_wf_sorted)

lemma st_wf_snoc:
  "st_wf rows \<Longrightarrow> \<forall>x\<in>set rows. sint (r_id x) < sint (r_id r) \<Longrightarrow> st_wf (rows @ [r])"
  by (auto simp: st_wf_def sorted_wrt_append)

lemma st_wf_mark: "st_wf rows \<Longrightarrow> st_wf (map (mark i) rows)"
proof -
  have "r_id (mark i r) = r_id r" for r by (simp add: mark_def)
  then show "st_wf rows \<Longrightarrow> st_wf (map (mark i) rows)" by (simp add: st_wf_def o_def)
qed

lemma active_snoc:
  assumes "st_wf rows" "\<forall>x\<in>set rows. sint (r_id x) < sint i"
  shows "st_active (rows @ [new_row i now sig]) = scan_row (new_row i now sig) # st_active rows"
  using unresolved_desc_wf[OF assms(1)] unresolved_desc_wf[OF st_wf_snoc[of rows "new_row i now sig"]] assms
  by (simp add: st_active_def new_row_def)

lemma active_mark:
  assumes "st_wf rows"
  shows "st_active (map (mark i) rows) = filter (\<lambda>t. ts_ID t \<noteq> i) (st_active rows)"
proof -
  have "filter (\<lambda>r. r_resolved r = 0) (map (mark i) rows) =
      filter (\<lambda>r. r_id r \<noteq> i) (filter (\<lambda>r. r_resolved r = 0) rows)"
    by (induction rows) (auto simp: mark_def)
  then show ?thesis
    unfolding st_active_def unresolved_desc_wf[OF assms] unresolved_desc_wf[OF st_wf_mark[OF assms]]
    by (simp add: rev_filter[symmetric] filter_map o_def scan_row_def)
qed

lemma save_wf:
  assumes "sql_ok E rows" "st_wf (rows db)"
  shows "st_wf (rows (snd (SaveSignal E now sig db)))"
proof (cases "SaveSignal E now sig db")
  case (Pair res db1)
  show ?thesis
  proof (cases res)
    case None
    with Pair obtain i where i: "\<forall>x\<in>set (rows db). sint (r_id x) < sint i"
      "rows db1 = rows db @ [new_row i now sig]" using sql_okD(2)[OF assms(1), of now sig db db1] by auto
    with Pair st_wf_snoc[OF assms(2), of "new_row i now sig"] show ?thesis by (simp add: new_row_def)
  next
    case (Some e)
    with Pair sql_okD(1)[OF assms(1), of _ db e db1] assms(2) show ?thesis by (auto simp: SaveSignal_def)
  qed
qed

lemma resolve_wf:
  assumes "sql_ok E rows" "st_wf (rows db)"
  shows "st_wf (rows (snd (ResolveSignal E i db)))"
proof (cases "ResolveSignal E i db")
  case (Pair res db1)
  with sql_okD(1)[OF assms(1), of _ db _ db1] sql_okD(3)[OF assms(1), of i db db1] assms(2)
  show ?thesis by (cases res) (auto simp: ResolveSignal_def intro: st_wf_mark)
qed

lemma store_provides:
  assumes "sql_ok E rows"
  shows "signal_store (SaveSignal E now) (ListSignals E) (ResolveSignal E)
    (\<lambda>db. st_active (rows db)) (\<lambda>db. st_wf (rows db))"
proof
  note ok = sql_okD[OF assms]
  fix db sig db' i e
  assume wf: "st_wf (rows db)"
  show "\<exists>t. st_active (rows db') = t # st_active (rows db) \<and> ts_Gate t = ts_Gate sig \<and>
      ts_Kind t = ts_Kind sig \<and> ts_Level t = ts_Level sig \<and> ts_Summary t = ts_Summary sig \<and>
      ts_Reasoning t = ts_Reasoning sig \<and> ts_Action t = ts_Action sig \<and> \<not> ts_Resolved t"
    if save: "SaveSignal E now sig db = (None, db')"
  proof -
    from ok(2)[OF save] obtain i where i: "\<forall>x\<in>set (rows db). sint (r_id x) < sint i"
      "rows db' = rows db @ [new_row i now sig]" by blast
    show ?thesis
      by (intro exI[of _ "scan_row (new_row i now sig)"])
        (unfold i(2) active_snoc[OF wf i(1)], simp add: scan_row_def new_row_def)
  qed
  show "st_wf (rows (snd (SaveSignal E now sig db)))" by (rule save_wf[OF assms wf])
  show "st_wf (rows (snd (ResolveSignal E i db)))" by (rule resolve_wf[OF assms wf])
  show "st_active (rows db') = filter (\<lambda>t. ts_ID t \<noteq> i) (st_active (rows db))"
    if "ResolveSignal E i db = (None, db')"
    using ok(3)[OF that] by (simp add: active_mark[OF wf])
next
  fix db sig db' i e
  show "st_active (rows db') = st_active (rows db)" if "SaveSignal E now sig db = (Some e, db')"
    using sql_okD(1)[OF assms] that by (simp add: SaveSignal_def)
  show "st_active (rows db') = st_active (rows db)" if "ResolveSignal E i db = (Some e, db')"
    using sql_okD(1)[OF assms] that by (simp add: ResolveSignal_def)
next
  fix db n sigs
  assume "st_wf (rows db)" "ListSignals E n db = Inr sigs"
  then show "sigs = sql_limit n (st_active (rows db))"
    using ListSignals_ok[OF assms, of n db sigs] by (auto simp: st_active_def sql_limit_def take_map)
qed

section \<open>An engine that has these semantics\<close>

text \<open>
  A table in memory: the next id is one more than the largest used, and the table is full when
  that does not fit (SQLite reports \<open>SQLITE_FULL\<close>).
\<close>

definition mem_next :: "sig_row list \<Rightarrow> int" where
  "mem_next rows = foldr (\<lambda>r m. max (sint (r_id r)) m) rows 0 + 1"

fun mem_exec :: "sql \<Rightarrow> sig_row list \<Rightarrow> string option \<times> sig_row list" where
  "mem_exec (Insert_signal now g k l s r a) rows =
     (if 2 ^ 63 \<le> mem_next rows then (Some ''database or disk is full'', rows)
      else (None, rows @ [\<lparr>r_id = word_of_int (mem_next rows), r_ts = now, r_gate = g, r_kind = k,
        r_level = l, r_summary = s, r_reasoning = r, r_action = a, r_resolved = 0\<rparr>]))"
| "mem_exec (Update_resolved i) rows = (None, map (mark i) rows)"
| "mem_exec st rows = (None, rows)"

definition mem_engine :: "sig_row list engine" where
  "mem_engine = \<lparr>sq_exec = mem_exec, sq_select = (\<lambda>n rows. Inr (sql_limit n (unresolved_desc rows)))\<rparr>"

lemma mem_next_bounds: "1 \<le> mem_next rows" "x \<in> set rows \<Longrightarrow> sint (r_id x) < mem_next rows"
  unfolding mem_next_def by (induction rows) (auto simp: max_def)

lemma mem_next_word:
  assumes "mem_next rows < 2 ^ 63"
  shows "sint (word_of_int (mem_next rows) :: int64) = mem_next rows"
  using assms mem_next_bounds(1)[of rows] by (intro sint64_of_int) linarith+

lemma mem_engine_ok: "sql_ok mem_engine (\<lambda>rows. rows)"
  unfolding sql_ok_def mem_engine_def
proof (intro conjI allI impI, goal_cases)
  case (1 st db e db')
  then show ?case by (cases st) (auto split: if_splits)
next
  case (2 now g k l s r a db db')
  then show ?case
    by (intro exI[of _ "word_of_int (mem_next db)"])
      (auto simp: mem_next_word mem_next_bounds(2) split: if_splits)
qed auto

interpretation mem: signal_store "SaveSignal mem_engine now" "ListSignals mem_engine"
  "ResolveSignal mem_engine" "\<lambda>rows. st_active rows" "\<lambda>rows. st_wf rows"
  by (rule store_provides[OF mem_engine_ok])

end
