(* ===== verification/Go_Os.thy ===== *)
theory Go_Os
  imports Go_Strings Store "HOL-Library.State_Monad"
begin

text \<open>
  What the program asks of the operating system and the libraries when it starts. Every call is
  recorded; whether it fails is the environment's answer, which may depend on the calls before. The
  combinators are the two shapes of error handling in the source: \<open>if err != nil { return err }\<close> and
  \<open>log.Fatalf\<close>. \<open>run_calls\<close> runs a plain list of calls, and \<open>scripted\<close> says that a computation is
  no more than such a list: the way the start-up code is verified.
\<close>

section \<open>path/filepath\<close>

text \<open>
  \<open>filepath.Clean\<close> drops empty and dot elements and resolves each \<open>..\<close> against the element before
  it; \<open>filepath.Dir\<close> cleans what is before the last slash.
\<close>

fun segments :: "string \<Rightarrow> string list" where
  "segments [] = [[]]"
| "segments (c # s) =
     (if c = CHR ''/'' then [] # segments s
      else (case segments s of [] \<Rightarrow> [[c]] | w # ws \<Rightarrow> (c # w) # ws))"

definition clean_step :: "bool \<Rightarrow> string list \<Rightarrow> string \<Rightarrow> string list" where
  "clean_step rooted out w =
     (if w = '''' \<or> w = ''.'' then out
      else if w = ''..'' then
        (if out \<noteq> [] \<and> last out \<noteq> ''..'' then butlast out else if rooted then out else out @ [w])
      else out @ [w])"

fun join_slash :: "string list \<Rightarrow> string" where
  "join_slash [] = []"
| "join_slash [w] = w"
| "join_slash (w # ws) = w @ ''/'' @ join_slash ws"

definition path_Clean :: "string \<Rightarrow> string" where
  "path_Clean p =
     (let rooted = (p \<noteq> [] \<and> hd p = CHR ''/'');
          body = join_slash (foldl (clean_step rooted) [] (segments p))
      in if rooted then CHR ''/'' # body else if body = '''' then ''.'' else body)"

definition path_Dir :: "string \<Rightarrow> string" where
  "path_Dir p = path_Clean (rev (dropWhile (\<lambda>c. c \<noteq> CHR ''/'') (rev p)))"

lemma path_Dir_file: "CHR ''/'' \<notin> set name \<Longrightarrow> path_Dir (dir @ CHR ''/'' # name) = path_Clean (dir @ ''/'')"
proof -
  assume "CHR ''/'' \<notin> set name"
  then have "dropWhile (\<lambda>c. c \<noteq> CHR ''/'') (rev name @ CHR ''/'' # rev dir) = CHR ''/'' # rev dir"
    by (subst dropWhile_append2) auto
  then show ?thesis by (simp add: path_Dir_def)
qed

lemma path_Dir_logs: "CHR ''/'' \<notin> set name \<Longrightarrow> path_Dir (''logs/'' @ name @ ''.log'') = ''logs''"
  using path_Dir_file[of "name @ ''.log''" "''logs''"] by (simp add: path_Clean_def clean_step_def)

lemma path_Dir_db: "path_Dir ''data/metrics.db'' = ''data''"
  by code_simp

section \<open>Calls\<close>

text \<open>The goroutines \<open>main\<close> starts, by what they run.\<close>

datatype tls_mode = TLS_None | TLS_Auto string | TLS_Manual string string

datatype go_task =
    T_Oracle
  | T_Metrics int64
  | T_Flush
  | T_Health string
  | T_Cleanup
  | T_Challenge string
  | T_Serve string tls_mode
  | T_TCP string
  | T_UDP string
  | T_Watch string

datatype os_call =
    OS_ReadFile string
  | OS_Register
  | OS_MkdirAll string
  | OS_SqlOpen string
  | OS_MaxOpenConns nat
  | OS_Exec sql
  | OS_OpenFile string
  | OS_NewWatcher
  | OS_AddWatch string
  | OS_CloseWatcher
  | OS_Go go_task
  | OS_Notify
  | OS_Wait
  | OS_CloseDb
  | OS_Exit

type_synonym os = "os_call list \<Rightarrow> os_call \<Rightarrow> string option"

type_synonym 'a io = "(os_call list, 'a) state"

text \<open>The calls whose error the source looks at; the others return none.\<close>

fun fallible :: "os_call \<Rightarrow> bool" where
  "fallible (OS_MkdirAll p) = True"
| "fallible (OS_SqlOpen p) = True"
| "fallible (OS_Exec n) = True"
| "fallible (OS_OpenFile p) = True"
| "fallible OS_NewWatcher = True"
| "fallible (OS_AddWatch p) = True"
| "fallible c = False"

definition try_call :: "os \<Rightarrow> os_call \<Rightarrow> (string + unit) io" where
  "try_call os c = State (\<lambda>tr. (case os tr c of None \<Rightarrow> Inr () | Some e \<Rightarrow> Inl e, tr @ [c]))"

definition do_call :: "os_call \<Rightarrow> (string + unit) io" where
  "do_call c = State (\<lambda>tr. (Inr (), tr @ [c]))"

text \<open>\<open>x, err := m; if err != nil { return err }; f(x)\<close>, and the same with a call on the way out.\<close>

definition and_then :: "(string + 'a) io \<Rightarrow> ('a \<Rightarrow> (string + 'b) io) \<Rightarrow> (string + 'b) io" where
  "and_then m f =
     do { r \<leftarrow> m;
          case r of Inl e \<Rightarrow> State_Monad.return (Inl e) | Inr x \<Rightarrow> f x }"

definition on_error :: "os_call \<Rightarrow> (string + 'a) io \<Rightarrow> (string + 'a) io" where
  "on_error c m =
     do { r \<leftarrow> m;
          case r of
            Inl e \<Rightarrow> do { done \<leftarrow> do_call c; State_Monad.return (Inl e) }
          | Inr x \<Rightarrow> State_Monad.return (Inr x) }"

definition io_ok :: "'a \<Rightarrow> (string + 'a) io" where
  "io_ok x = State_Monad.return (Inr x)"

section \<open>Scripts\<close>

text \<open>A list of calls, run until one that can fail does: what it answered, and the calls made.\<close>

fun run_calls :: "os \<Rightarrow> os_call list \<Rightarrow> os_call list \<Rightarrow> string option \<times> os_call list" where
  "run_calls os [] tr = (None, tr)"
| "run_calls os (c # cs) tr =
     (if fallible c \<and> os tr c \<noteq> None then (os tr c, tr @ [c]) else run_calls os cs (tr @ [c]))"

text \<open>The clean-up that follows a failed call: a watcher that could not be set up is closed.\<close>

fun undo :: "os_call \<Rightarrow> os_call list" where
  "undo (OS_AddWatch p) = [OS_CloseWatcher]"
| "undo c = []"

definition scripted :: "os \<Rightarrow> os_call list \<Rightarrow> (string + 'a) io \<Rightarrow> os_call list \<Rightarrow> 'a \<Rightarrow> bool" where
  "scripted os fin m cs x \<longleftrightarrow>
     (\<forall>tr. run_state m tr =
        (case run_calls os cs tr of
           (None, tr') \<Rightarrow> (Inr x, tr')
         | (Some e, tr') \<Rightarrow> (Inl e, tr' @ undo (last tr') @ fin)))"

lemma run_calls_append:
  "run_calls os (cs @ ds) tr =
     (case run_calls os cs tr of (None, tr') \<Rightarrow> run_calls os ds tr' | (Some e, tr') \<Rightarrow> (Some e, tr'))"
  by (induction cs arbitrary: tr) auto

text \<open>One rule per combinator. \<open>fin\<close> is what follows a failure: nothing, or the exit of the process.\<close>

named_theorems script

lemma scripted_ok [script]: "scripted os fin (io_ok x) [] x"
  by (simp add: scripted_def io_ok_def)

lemma scripted_do [script]: "\<not> fallible c \<Longrightarrow> scripted os fin (do_call c) [c] ()"
  by (simp add: scripted_def do_call_def)

lemma scripted_try [script]: "fallible c \<Longrightarrow> undo c = [] \<Longrightarrow> scripted os [] (try_call os c) [c] ()"
  by (auto simp: scripted_def try_call_def split: option.split)

lemma scripted_watch [script]:
  "scripted os [] (on_error OS_CloseWatcher (try_call os (OS_AddWatch p))) [OS_AddWatch p] ()"
  by (auto simp: scripted_def on_error_def try_call_def do_call_def split: option.split)

lemma scripted_then:
  assumes "scripted os fin m cs x" "scripted os fin (f x) ds y" "es = cs @ ds"
  shows "scripted os fin (and_then m f) es y"
  using assms(1,2) unfolding scripted_def and_then_def assms(3)
  by (auto simp: run_calls_append split: option.splits prod.splits)

text \<open>\<open>log.Fatalf\<close>: the error ends the process.\<close>

definition fatal :: "(string + 'a) io \<Rightarrow> (string + 'a) io" where
  "fatal m = on_error OS_Exit m"

lemma scripted_fatal [script]: "scripted os [] m cs x \<Longrightarrow> scripted os [OS_Exit] (fatal m) cs x"
  by (auto simp: scripted_def fatal_def on_error_def do_call_def split: option.splits prod.splits)

lemma run_calls_success:
  "fst (run_calls os cs tr) = None \<Longrightarrow> snd (run_calls os cs tr) = tr @ cs"
  by (induction cs arbitrary: tr) (auto split: if_splits)

text \<open>A failure stops at the first call that fails; all before it were made and answered.\<close>

lemma run_calls_failure:
  assumes "run_calls os cs tr = (Some e, tr')"
  shows "\<exists>k < length cs. tr' = tr @ take (Suc k) cs \<and> fallible (cs ! k) \<and> os (tr @ take k cs) (cs ! k) = Some e \<and>
    (\<forall>j<k. fallible (cs ! j) \<longrightarrow> os (tr @ take j cs) (cs ! j) = None)"
  using assms
proof (induction cs arbitrary: tr)
  case (Cons c cs)
  show ?case
  proof (cases "fallible c \<and> os tr c \<noteq> None")
    case True
    with Cons.prems show ?thesis by (intro exI[of _ 0]) auto
  next
    case False
    with Cons.IH[of "tr @ [c]"] Cons.prems obtain k where k: "k < length cs" "tr' = tr @ c # take (Suc k) cs"
      "fallible (cs ! k)" "os (tr @ c # take k cs) (cs ! k) = Some e"
      "\<forall>j<k. fallible (cs ! j) \<longrightarrow> os (tr @ c # take j cs) (cs ! j) = None" by auto
    have "fallible ((c # cs) ! j) \<longrightarrow> os (tr @ take j (c # cs)) ((c # cs) ! j) = None" if "j < Suc k" for j
      using that k(5) False by (cases j) auto
    with k show ?thesis by (intro exI[of _ "Suc k"]) auto
  qed
qed simp

lemma run_calls_None_iff:
  "fst (run_calls os cs tr) = None \<longleftrightarrow>
     (\<forall>k < length cs. fallible (cs ! k) \<longrightarrow> os (tr @ take k cs) (cs ! k) = None)"
proof (induction cs arbitrary: tr)
  case (Cons c cs)
  then show ?case by (auto simp: All_less_Suc2)
qed simp

end
