(* ===== verification/Balancer_Iface.thy ===== *)
theory Balancer_Iface
  imports Prelude
begin

text \<open>
  The Go interface \<open>Balancer\<close> of \<^verbatim>\<open>internal/balancer/balancer.go\<close> as a locale:
  the three methods as parameters, an abstraction \<open>addrs\<close> of the live backend list, and the
  laws every implementation promises to its clients (the reverse proxy, the two tunnels and the
  health checker). \<open>counting_balancer\<close> is the larger contract of the least-connections
  balancer, whose clients also report when a connection opens and closes.
\<close>

locale balancer =
  fixes bnext :: "'b \<Rightarrow> addr \<times> 'b"
    and set_backends :: "'b \<Rightarrow> addr list \<Rightarrow> 'b"
    and blen :: "'b \<Rightarrow> int"
    and addrs :: "'b \<Rightarrow> addr list"
  assumes next_empty: "addrs b = [] \<Longrightarrow> bnext b = ('''', b)"
    and next_live: "addrs b \<noteq> [] \<Longrightarrow> fst (bnext b) \<in> set (addrs b)"
    and addrs_next [simp]: "addrs (snd (bnext b)) = addrs b"
    and addrs_set [simp]: "addrs (set_backends b as) = as"
    and len_addrs: "blen b = int (length (addrs b))"
begin

text \<open>
  The clients read \<open>""\<close> as "no backend". That reading is right as long as no live
  backend has the empty address.
\<close>

lemma next_none_iff:
  assumes "'''' \<notin> set (addrs b)"
  shows "fst (bnext b) = '''' \<longleftrightarrow> addrs b = []"
  using assms next_live[of b] next_empty[of b] by (cases "addrs b = []") auto

lemma next_none_iff_len:
  assumes "'''' \<notin> set (addrs b)"
  shows "fst (bnext b) = '''' \<longleftrightarrow> blen b = 0"
  using next_none_iff[OF assms] by (simp add: len_addrs)

lemma addrs_run [simp]: "addrs (snd (run_n bnext n b)) = addrs b"
  by (induction n arbitrary: b) auto

lemma run_live:
  assumes "addrs b \<noteq> []"
  shows "set (fst (run_n bnext n b)) \<subseteq> set (addrs b)"
  using assms
proof (induction n arbitrary: b)
  case (Suc n)
  then show ?case using next_live[of b] Suc.IH[of "snd (bnext b)"] by auto
qed simp

lemma run_dead: "addrs b = [] \<Longrightarrow> run_n bnext n b = (replicate n '''', b)"
  by (induction n arbitrary: b) (auto simp: next_empty)

text \<open>After a list is pushed, only its addresses are handed out, until the next push.\<close>

lemma run_after_set:
  assumes "as \<noteq> []"
  shows "set (fst (run_n bnext n (set_backends b as))) \<subseteq> set as"
  using run_live[of "set_backends b as" n] assms by simp

lemma removed_never_chosen:
  assumes "a \<notin> set as" "a \<noteq> ''''"
  shows "a \<notin> set (fst (run_n bnext n (set_backends b as)))"
proof (cases "as = []")
  case True
  then have "run_n bnext n (set_backends b as) = (replicate n '''', set_backends b as)"
    by (intro run_dead) simp
  with assms(2) show ?thesis by auto
next
  case False
  with assms(1) run_after_set[of as n b] show ?thesis by auto
qed

end

section \<open>Connection accounting\<close>

text \<open>
  What the clients of the counting contract do to a balancer over time: a connection to an
  address is opened (\<open>Acquire\<close>) or closed (\<open>Release\<close>), or the health checker pushes a
  new list.
\<close>

datatype conn_event = Opened addr | Closed addr | Pushed "addr list"

fun run_conns ::
  "('b \<Rightarrow> addr \<Rightarrow> 'b) \<Rightarrow> ('b \<Rightarrow> addr \<Rightarrow> 'b) \<Rightarrow> ('b \<Rightarrow> addr list \<Rightarrow> 'b) \<Rightarrow> 'b \<Rightarrow> conn_event list \<Rightarrow> 'b" where
  "run_conns acq rel push b [] = b"
| "run_conns acq rel push b (Opened a # es) = run_conns acq rel push (acq b a) es"
| "run_conns acq rel push b (Closed a # es) = run_conns acq rel push (rel b a) es"
| "run_conns acq rel push b (Pushed as # es) = run_conns acq rel push (push b as) es"

text \<open>Connections to \<open>a\<close> opened less closed in a history, and "\<open>a\<close> stays listed".\<close>

fun net_open :: "addr \<Rightarrow> conn_event list \<Rightarrow> int" where
  "net_open a [] = 0"
| "net_open a (Opened x # es) = (if x = a then 1 else 0) + net_open a es"
| "net_open a (Closed x # es) = (if x = a then -1 else 0) + net_open a es"
| "net_open a (Pushed as # es) = net_open a es"

definition stays_listed :: "addr \<Rightarrow> conn_event list \<Rightarrow> bool" where
  "stays_listed a es \<longleftrightarrow> (\<forall>as. Pushed as \<in> set es \<longrightarrow> a \<in> set as)"

lemma stays_listed_simps [simp]:
  "stays_listed a []"
  "stays_listed a (Opened x # es) = stays_listed a es"
  "stays_listed a (Closed x # es) = stays_listed a es"
  "stays_listed a (Pushed as # es) = (a \<in> set as \<and> stays_listed a es)"
  by (auto simp: stays_listed_def)

locale counting_balancer = balancer bnext set_backends blen addrs
  for bnext :: "'b \<Rightarrow> addr \<times> 'b"
    and set_backends :: "'b \<Rightarrow> addr list \<Rightarrow> 'b"
    and blen :: "'b \<Rightarrow> int"
    and addrs :: "'b \<Rightarrow> addr list" +
  fixes acquire :: "'b \<Rightarrow> addr \<Rightarrow> 'b"
    and release :: "'b \<Rightarrow> addr \<Rightarrow> 'b"
    and conn_count :: "'b \<Rightarrow> addr \<Rightarrow> int64"
    and tracks :: "'b \<Rightarrow> addr \<Rightarrow> bool"
    and counting :: "'b \<Rightarrow> bool"
  assumes count_acquire:
      "conn_count (acquire b a) x = (if x = a \<and> tracks b a then conn_count b x + 1 else conn_count b x)"
    and count_release:
      "conn_count (release b a) x = (if x = a \<and> tracks b a then conn_count b x - 1 else conn_count b x)"
    and count_next [simp]: "conn_count (snd (bnext b)) x = conn_count b x"
    and count_set:
      "conn_count (set_backends b as) x = (if x \<in> set as \<and> tracks b x then conn_count b x else 0)"
    and addrs_acquire [simp]: "addrs (acquire b a) = addrs b"
    and addrs_release [simp]: "addrs (release b a) = addrs b"
    and tracks_acquire [simp]: "tracks (acquire b a) x = tracks b x"
    and tracks_release [simp]: "tracks (release b a) x = tracks b x"
    and tracks_next [simp]: "tracks (snd (bnext b)) x = tracks b x"
    and tracks_set [simp]: "tracks (set_backends b as) x \<longleftrightarrow> counting b \<and> x \<in> set as"
    and counting_acquire: "counting (acquire b a) = counting b"
    and counting_release: "counting (release b a) = counting b"
    and counting_next: "counting (snd (bnext b)) = counting b"
    and counting_set: "counting (set_backends b as) = counting b"
begin

lemmas counting_ops = counting_acquire counting_release counting_next counting_set

lemma release_acquire_count: "conn_count (release (acquire b a) a) x = conn_count b x"
  by (simp add: count_release count_acquire)

lemma acquire_other: "x \<noteq> a \<Longrightarrow> conn_count (acquire b a) x = conn_count b x"
  by (simp add: count_acquire)

lemma release_other: "x \<noteq> a \<Longrightarrow> conn_count (release b a) x = conn_count b x"
  by (simp add: count_release)

text \<open>While an address stays listed its counter is the number of its open connections.\<close>

lemma run_conns_count:
  assumes "counting b" "tracks b a" "stays_listed a es"
  shows "conn_count (run_conns acquire release set_backends b es) a = conn_count b a + word_of_int (net_open a es)"
  using assms
proof (induction es arbitrary: b)
  case (Cons e es)
  show ?case
  proof (cases e)
    case (Opened x)
    with Cons.IH[of "acquire b x"] Cons.prems show ?thesis by (auto simp: count_acquire counting_ops)
  next
    case (Closed x)
    with Cons.IH[of "release b x"] Cons.prems show ?thesis by (auto simp: count_release counting_ops)
  next
    case (Pushed as)
    with Cons.IH[of "set_backends b as"] Cons.prems show ?thesis by (auto simp: count_set counting_ops)
  qed
qed simp

lemma run_conns_tracks:
  "counting b \<Longrightarrow> tracks b a \<Longrightarrow> stays_listed a es \<Longrightarrow>
   tracks (run_conns acquire release set_backends b es) a"
proof (induction es arbitrary: b)
  case (Cons e es)
  then show ?case by (cases e) (auto simp: counting_ops)
qed simp

text \<open>A list that drops an address drops its counter, whatever is still open on it.\<close>

lemma relisted_count_zero:
  assumes "a \<notin> set live"
  shows "conn_count (set_backends (set_backends b live) as) a = 0"
  using assms by (simp add: count_set)

lemma relisted_release_negative:
  assumes "counting b" "a \<notin> set live" "a \<in> set as"
  shows "conn_count (release (set_backends (set_backends b live) as) a) a = -1"
  using assms by (simp add: count_release relisted_count_zero counting_ops)

end

end
