(* ===== verification/Round_Robin.thy ===== *)
theory Round_Robin
  imports Balancer_Iface
begin

text \<open>
  \<^verbatim>\<open>internal/balancer/roundrobin.go\<close>: the default balancer. The struct's lock and atomic
  counter make each call one atomic step; the model is the sequence of those steps. The index
  is taken from the counter before the increment and reduced modulo the number of backends
  (\<open>uint64(len)\<close> is the length itself, as a Go slice is shorter than \<open>2^63\<close>).
\<close>

record round_robin =
  rr_backends :: "addr list"
  rr_counter :: uint64

definition rr_New :: "addr list \<Rightarrow> round_robin" where
  "rr_New bs = \<lparr>rr_backends = bs, rr_counter = 0\<rparr>"

definition rr_Next :: "round_robin \<Rightarrow> addr \<times> round_robin" where
  "rr_Next r =
     (if rr_backends r = [] then ('''', r)
      else let c = rr_counter r + 1; n = c - 1
           in (rr_backends r ! (unat n mod length (rr_backends r)), r\<lparr>rr_counter := c\<rparr>))"

definition rr_SetBackends :: "round_robin \<Rightarrow> addr list \<Rightarrow> round_robin" where
  "rr_SetBackends r bs = r\<lparr>rr_backends := bs\<rparr>"

definition rr_Len :: "round_robin \<Rightarrow> int" where
  "rr_Len r = int (length (rr_backends r))"

declare rr_New_def [go_defs] rr_Next_def [go_defs] rr_SetBackends_def [go_defs] rr_Len_def [go_defs]

section \<open>The interface\<close>

interpretation rrb: balancer rr_Next rr_SetBackends rr_Len rr_backends
  by unfold_locales (auto simp: go_defs Let_def)

section \<open>The rotation\<close>

lemma rr_Next_pick:
  "rr_backends r \<noteq> [] \<Longrightarrow>
   rr_Next r = (rr_backends r ! (unat (rr_counter r) mod length (rr_backends r)),
                r\<lparr>rr_counter := rr_counter r + 1\<rparr>)"
  by (simp add: rr_Next_def)

lemma rr_run_counter:
  "rr_backends r \<noteq> [] \<Longrightarrow> rr_counter (snd (run_n rr_Next m r)) = rr_counter r + of_nat m"
  by (induction m arbitrary: r) (auto simp: rr_Next_pick)

text \<open>As long as the 64-bit counter does not wrap, call \<open>k\<close> picks index \<open>c + k\<close> modulo the length.\<close>

lemma rr_run_picks:
  assumes "rr_backends r \<noteq> []" "unat (rr_counter r) + m \<le> 2 ^ 64"
  shows "fst (run_n rr_Next m r) =
    map (\<lambda>k. rr_backends r ! ((unat (rr_counter r) + k) mod length (rr_backends r))) [0..<m]"
  using assms
proof (induction m)
  case (Suc m)
  have "unat (rr_counter r + of_nat m) = unat (rr_counter r) + m"
    using Suc.prems(2) by (intro unat64_add_nowrap) simp
  moreover have "rr_backends (snd (run_n rr_Next m r)) = rr_backends r" by simp
  ultimately have "fst (rr_Next (snd (run_n rr_Next m r))) =
      rr_backends r ! ((unat (rr_counter r) + m) mod length (rr_backends r))"
    using Suc.prems(1) by (simp add: rr_Next_pick rr_run_counter)
  with Suc show ?case by (simp add: run_n_fst_Suc_last del: run_n.simps)
qed simp

lemma rr_one_cycle:
  assumes "rr_backends r \<noteq> []" "unat (rr_counter r) + length (rr_backends r) \<le> 2 ^ 64"
  shows "fst (run_n rr_Next (length (rr_backends r)) r) = rotate (unat (rr_counter r)) (rr_backends r)"
  using assms by (simp add: rr_run_picks map_nth_mod_rotate)

lemma rr_cycles_count:
  assumes "rr_backends r \<noteq> []" "unat (rr_counter r) + q * length (rr_backends r) < 2 ^ 64"
  shows "count_list (fst (run_n rr_Next (q * length (rr_backends r)) r)) a =
         q * count_list (rr_backends r) a"
  using assms
proof (induction q)
  case (Suc q)
  let ?n = "length (rr_backends r)"
  let ?s = "snd (run_n rr_Next (q * ?n) r)"
  have bs: "rr_backends ?s = rr_backends r" by simp
  have c: "unat (rr_counter ?s) = unat (rr_counter r) + q * ?n"
    using Suc.prems unat64_add_nowrap[of "rr_counter r" "q * ?n"]
    by (simp add: rr_run_counter del: of_nat_mult)
  have "fst (run_n rr_Next ?n ?s) = rotate (unat (rr_counter ?s)) (rr_backends r)"
    using rr_one_cycle[of ?s] Suc.prems by (simp add: c)
  then have "count_list (fst (run_n rr_Next ?n ?s)) a = count_list (rr_backends r) a"
    by (simp add: count_list_mset)
  moreover have "Suc q * ?n = q * ?n + ?n" by simp
  ultimately show ?case using Suc
    by (simp only: run_n_append count_list_append) auto
qed simp

end
