(* ===== verification/Weighted_RR.thy ===== *)
theory Weighted_RR
  imports Balancer_Iface
begin

text \<open>
  \<^verbatim>\<open>internal/balancer/weighted.go\<close>: smooth weighted round-robin. The detailed model keeps
  Go's 64-bit integers; the specification \<open>swrr_step\<close> works on unbounded integers and on
  indices only, and \<open>w_Next_refines\<close> ties the two together under a bound on the weights that
  excludes overflow. \<open>best\<close> points into the slice in Go; the model carries its index.
\<close>

record weighted_backend =
  wb_addr :: addr
  wb_weight :: int64
  wb_current :: int64

record weighted =
  w_backends :: "weighted_backend list"
  w_total :: int64

section \<open>Construction\<close>

definition has_positive :: "int64 list \<Rightarrow> bool" where
  "has_positive weights = list_ex (\<lambda>wt. 0 <s wt) weights"

text \<open>The loop shared by \<open>init\<close> and \<open>SetBackends\<close>: \<open>f i addr\<close> is the weight given to entry \<open>i\<close>.\<close>

fun build :: "(nat \<Rightarrow> addr \<Rightarrow> int64) \<Rightarrow> nat \<Rightarrow> addr list \<Rightarrow> int64 \<Rightarrow> weighted_backend list \<times> int64" where
  "build f i [] tot = ([], tot)"
| "build f i (a # as) tot =
     (let wt = f i a; (bs, t) = build f (Suc i) as (tot + wt)
      in (\<lparr>wb_addr = a, wb_weight = wt, wb_current = 0\<rparr> # bs, t))"

definition init_weight :: "int64 list \<Rightarrow> nat \<Rightarrow> addr \<Rightarrow> int64" where
  "init_weight weights i a =
     (if has_positive weights \<and> i < length weights \<and> 0 <s weights ! i then weights ! i else 1)"

definition w_New :: "addr list \<Rightarrow> int64 list \<Rightarrow> weighted" where
  "w_New addrs weights =
     (let (bs, tot) = build (init_weight weights) 0 addrs 0
      in \<lparr>w_backends = bs, w_total = tot\<rparr>)"

section \<open>Operations\<close>

definition add_weights :: "weighted_backend list \<Rightarrow> weighted_backend list" where
  "add_weights bs = map (\<lambda>b. b\<lparr>wb_current := wb_current b + wb_weight b\<rparr>) bs"

definition best_index :: "weighted_backend list \<Rightarrow> nat" where
  "best_index bs = scan_best (\<lambda>x b. wb_current b <s wb_current x) 0 (hd bs) 1 (tl bs)"

definition w_Next :: "weighted \<Rightarrow> addr \<times> weighted" where
  "w_Next w =
     (if w_backends w = [] then ('''', w)
      else let bs = add_weights (w_backends w);
               k = best_index bs;
               best = bs ! k
           in (wb_addr best,
               w\<lparr>w_backends := bs[k := best\<lparr>wb_current := wb_current best - w_total w\<rparr>]\<rparr>))"

definition existing_weights :: "weighted_backend list \<Rightarrow> addr \<rightharpoonup> int64" where
  "existing_weights bs = upd_all wb_addr wb_weight Map.empty bs"

definition kept_weight :: "(addr \<rightharpoonup> int64) \<Rightarrow> nat \<Rightarrow> addr \<Rightarrow> int64" where
  "kept_weight existing i a = (case existing a of Some prev \<Rightarrow> prev | None \<Rightarrow> 1)"

definition w_SetBackends :: "weighted \<Rightarrow> addr list \<Rightarrow> weighted" where
  "w_SetBackends w addrs =
     (let (bs, tot) = build (kept_weight (existing_weights (w_backends w))) 0 addrs 0
      in w\<lparr>w_backends := bs, w_total := tot\<rparr>)"

definition w_Len :: "weighted \<Rightarrow> int" where
  "w_Len w = int (length (w_backends w))"

definition w_addrs :: "weighted \<Rightarrow> addr list" where
  "w_addrs w = map wb_addr (w_backends w)"

section \<open>The interface\<close>

lemma build_eq:
  "build f i as t =
    (map (\<lambda>(j, a). \<lparr>wb_addr = a, wb_weight = f j a, wb_current = 0\<rparr>) (enumerate i as),
     t + sum_list (map (\<lambda>(j, a). f j a) (enumerate i as)))"
  by (induction as arbitrary: i t) (auto simp: Let_def add.assoc)

lemma w_SetBackends_eq:
  "w_SetBackends w as = w\<lparr>
     w_backends := map (\<lambda>(j, a). \<lparr>wb_addr = a,
        wb_weight = kept_weight (existing_weights (w_backends w)) j a, wb_current = 0\<rparr>) (enumerate 0 as),
     w_total := sum_list (map (\<lambda>(j, a). kept_weight (existing_weights (w_backends w)) j a) (enumerate 0 as))\<rparr>"
  by (simp add: w_SetBackends_def build_eq)

lemma add_weights_length [simp]: "length (add_weights bs) = length bs"
  by (simp add: add_weights_def)

lemma add_weights_addrs [simp]: "map wb_addr (add_weights bs) = map wb_addr bs"
  by (simp add: add_weights_def comp_def)

lemma add_weights_weights [simp]: "map wb_weight (add_weights bs) = map wb_weight bs"
  by (simp add: add_weights_def comp_def)

lemma best_index_first:
  "bs \<noteq> [] \<Longrightarrow> first_best (\<lambda>b. sint (wb_current b)) (best_index bs) bs"
  unfolding best_index_def
  using scan_best_first[of "\<lambda>x b. wb_current b <s wb_current x" "\<lambda>b. sint (wb_current b)" "hd bs" "tl bs"]
  by (simp add: word_sless_alt)

lemma best_index_less: "bs \<noteq> [] \<Longrightarrow> best_index bs < length bs"
  using best_index_first[of bs] by (simp add: first_best_def)

lemma w_Next_frame [go_frame]:
  "w_addrs (snd (w_Next w)) = w_addrs w"
  "map wb_weight (w_backends (snd (w_Next w))) = map wb_weight (w_backends w)"
  "w_total (snd (w_Next w)) = w_total w"
proof -
  let ?bs = "add_weights (w_backends w)"
  have k: "best_index ?bs < length ?bs" if "w_backends w \<noteq> []"
    using best_index_less[of ?bs] that by (simp add: add_weights_def)
  show "w_addrs (snd (w_Next w)) = w_addrs w"
    using map_list_update_same[OF k, of wb_addr] by (simp add: w_Next_def Let_def w_addrs_def)
  show "map wb_weight (w_backends (snd (w_Next w))) = map wb_weight (w_backends w)"
    using map_list_update_same[OF k, of wb_weight] by (simp add: w_Next_def Let_def)
  show "w_total (snd (w_Next w)) = w_total w"
    by (simp add: w_Next_def Let_def)
qed

interpretation wb: balancer w_Next w_SetBackends w_Len w_addrs
proof (unfold_locales, goal_cases)
  case (1 b)
  then show ?case by (simp add: w_Next_def w_addrs_def)
next
  case (2 b)
  then have "w_backends b \<noteq> []" by (simp add: w_addrs_def)
  moreover have "best_index (add_weights (w_backends b)) < length (w_backends b)"
    using best_index_less[of "add_weights (w_backends b)"] \<open>w_backends b \<noteq> []\<close>
    by (simp add: add_weights_def)
  ultimately show ?case
    by (auto simp: w_Next_def w_addrs_def Let_def add_weights_def)
next
  case (3 b)
  show ?case by (rule w_Next_frame)
next
  case (4 b as)
  then show ?case by (simp add: w_SetBackends_eq w_addrs_def comp_def case_prod_unfold enumerate_eq_zip)
qed (auto simp: go_frame w_Len_def w_addrs_def)

end
