(* ===== verification/Weighted_Fair.thy ===== *)
theory Weighted_Fair
  imports Weighted_RR
begin

text \<open>
  What smooth weighted round-robin promises. \<open>swrr_step\<close> is the algorithm on unbounded
  integers: credits grow by the weights, the first largest credit wins and pays the total. Its
  invariant (credits sum to 0, none at or below minus the total) gives exact proportions over
  \<open>total\<close> calls and a bound on how far ahead an entry can ever be. \<open>w_Next_refines\<close>
  shows that the 64-bit code computes the same picks when the credits cannot overflow.
\<close>

section \<open>The specification on unbounded integers\<close>

definition first_max :: "int list \<Rightarrow> nat" where
  "first_max cs = scan_best (\<lambda>x b. b < x) 0 (hd cs) 1 (tl cs)"

definition swrr_step :: "int list \<Rightarrow> int list \<Rightarrow> nat \<times> int list" where
  "swrr_step ws cur =
     (let cs = map2 (+) cur ws; k = first_max cs
      in (k, cs[k := cs ! k - sum_list ws]))"

definition swrr_inv :: "int list \<Rightarrow> int list \<Rightarrow> bool" where
  "swrr_inv ws cur \<longleftrightarrow> ws \<noteq> [] \<and> (\<forall>w \<in> set ws. 0 < w) \<and> length cur = length ws \<and>
     sum_list cur = 0 \<and> (\<forall>c \<in> set cur. - sum_list ws < c)"

lemma first_max_first: "cs \<noteq> [] \<Longrightarrow> first_best id (first_max cs) cs"
  unfolding first_max_def using scan_best_first[of "\<lambda>x b. b < x" id "hd cs" "tl cs"] by simp

lemma sum_list_pos: "xs \<noteq> [] \<Longrightarrow> \<forall>x \<in> set xs. (0::int) < x \<Longrightarrow> 0 < sum_list xs"
  by (induction xs) (auto simp: sum_list_nonneg add_pos_nonneg less_imp_le)

lemma sum_list_nonpos_int: "\<forall>x \<in> set xs. x \<le> (0::int) \<Longrightarrow> sum_list xs \<le> 0"
  by (induction xs) auto

lemma sum_list_map2_plus:
  "length xs = length ys \<Longrightarrow> sum_list (map2 (+) xs ys) = sum_list xs + sum_list (ys :: int list)"
  by (induction xs ys rule: list_induct2) auto

lemma sum_list_update_int:
  "k < length xs \<Longrightarrow> sum_list (xs[k := y]) = sum_list xs + y - (xs ! k :: int)"
  by (induction xs arbitrary: k) (auto split: nat.splits)

lemma swrr_inv_total: "swrr_inv ws cur \<Longrightarrow> 0 < sum_list ws"
  by (simp add: swrr_inv_def sum_list_pos)

lemma first_best_upper:
  "first_best id k xs \<Longrightarrow> xs ! k \<le> u \<Longrightarrow> \<forall>x \<in> set xs. x \<le> u"
  by (fastforce simp: first_best_def in_set_conv_nth)

lemma swrr_added_nonempty: "swrr_inv ws cur \<Longrightarrow> map2 (+) cur ws \<noteq> []"
  by (cases cur; cases ws) (auto simp: swrr_inv_def)

text \<open>The winner's credit is positive, since the credits after step 1 sum to the total.\<close>

lemma swrr_winner_positive:
  assumes "swrr_inv ws cur"
  shows "0 < map2 (+) cur ws ! first_max (map2 (+) cur ws)"
proof (rule ccontr)
  let ?cs = "map2 (+) cur ws"
  assume "\<not> 0 < ?cs ! first_max ?cs"
  moreover have "first_best id (first_max ?cs) ?cs"
    using swrr_added_nonempty[OF assms] by (rule first_max_first)
  ultimately have "\<forall>x \<in> set ?cs. x \<le> 0"
    using first_best_upper[of "first_max ?cs" ?cs 0] by simp
  then have "sum_list ?cs \<le> 0" by (rule sum_list_nonpos_int)
  moreover have "sum_list ?cs = sum_list ws"
    using assms by (simp add: sum_list_map2_plus swrr_inv_def)
  ultimately show False using swrr_inv_total[OF assms] by simp
qed

lemma swrr_step_index:
  assumes "swrr_inv ws cur"
  shows "fst (swrr_step ws cur) < length ws"
  using first_max_first[OF swrr_added_nonempty[OF assms]] assms
  by (auto simp: swrr_step_def Let_def first_best_def swrr_inv_def)

lemma swrr_step_credit:
  assumes "swrr_inv ws cur" "i < length ws"
  shows "snd (swrr_step ws cur) ! i =
    cur ! i + ws ! i - (if i = fst (swrr_step ws cur) then sum_list ws else 0)"
  using assms swrr_step_index[OF assms(1)]
  by (auto simp: swrr_step_def Let_def swrr_inv_def)

lemma swrr_step_inv:
  assumes inv: "swrr_inv ws cur"
  shows "swrr_inv ws (snd (swrr_step ws cur))"
proof -
  let ?cs = "map2 (+) cur ws"
  let ?r = "snd (swrr_step ws cur)"
  have k: "first_max ?cs < length ?cs"
    using swrr_step_index[OF inv] inv by (auto simp: swrr_step_def Let_def swrr_inv_def)
  have len: "length ?r = length ws" and total: "0 < sum_list ws"
    using inv swrr_inv_total[OF inv] by (auto simp: swrr_step_def Let_def swrr_inv_def)
  have "sum_list ?r = 0"
    using k inv by (simp add: swrr_step_def Let_def sum_list_update_int sum_list_map2_plus swrr_inv_def)
  moreover have "- sum_list ws < ?r ! i" if i: "i < length ws" for i
  proof (cases "i = first_max ?cs")
    case True
    then show ?thesis
      using swrr_winner_positive[OF inv] k by (simp add: swrr_step_def Let_def)
  next
    case False
    have "- sum_list ws < cur ! i" "0 < ws ! i" using inv i by (auto simp: swrr_inv_def)
    moreover have "?r ! i = cur ! i + ws ! i"
      using False i inv by (simp add: swrr_step_def Let_def swrr_inv_def)
    ultimately show ?thesis by simp
  qed
  ultimately show ?thesis using inv len by (auto simp: swrr_inv_def in_set_conv_nth)
qed

lemma swrr_run_inv: "swrr_inv ws cur \<Longrightarrow> swrr_inv ws (snd (run_n (swrr_step ws) m cur))"
  by (rule run_n_invariant) (auto intro: swrr_step_inv)

lemma swrr_run_index:
  "swrr_inv ws cur \<Longrightarrow> \<forall>k \<in> set (fst (run_n (swrr_step ws) m cur)). k < length ws"
  by (rule run_n_results[where P = "swrr_inv ws"]) (auto intro: swrr_step_inv swrr_step_index)

text \<open>The accounting equation: credit = start + calls times weight - picks times total.\<close>

lemma swrr_run_credit:
  assumes "swrr_inv ws cur" "i < length ws"
  shows "snd (run_n (swrr_step ws) m cur) ! i =
    cur ! i + int m * ws ! i - int (count_list (fst (run_n (swrr_step ws) m cur)) i) * sum_list ws"
  using assms(1)
proof (induction m arbitrary: cur)
  case (Suc m)
  show ?case
    using Suc.IH[OF swrr_step_inv[OF Suc.prems]] swrr_step_credit[OF Suc.prems assms(2)]
    by (auto simp: algebra_simps)
qed simp

text \<open>From equal credits, no entry is ever a full turn ahead of its share.\<close>

lemma swrr_never_ahead:
  assumes "swrr_inv ws cur" "i < length ws" "cur ! i = 0"
  shows "int (count_list (fst (run_n (swrr_step ws) m cur)) i) * sum_list ws < int m * ws ! i + sum_list ws"
proof -
  let ?r = "snd (run_n (swrr_step ws) m cur)"
  have "swrr_inv ws ?r" by (rule swrr_run_inv) fact
  then have "- sum_list ws < ?r ! i" using assms(2) by (auto simp: swrr_inv_def)
  with swrr_run_credit[OF assms(1,2), of m] assms(3) show ?thesis by simp
qed

text \<open>One full cycle: every entry is picked exactly \<open>weight\<close> times and all credits return to 0.\<close>

lemma swrr_cycle_credit:
  assumes "swrr_inv ws cur" "\<forall>c \<in> set cur. c = 0" "i < length ws"
  shows "snd (run_n (swrr_step ws) (nat (sum_list ws)) cur) ! i = 0"
proof -
  let ?T = "sum_list ws" and ?r = "snd (run_n (swrr_step ws) (nat (sum_list ws)) cur)"
  have T: "0 < ?T" using swrr_inv_total[OF assms(1)] .
  have inv: "swrr_inv ws ?r" by (rule swrr_run_inv) fact
  have nonneg: "0 \<le> ?r ! j" if "j < length ws" for j
  proof -
    have "cur ! j = 0" using assms that by (simp add: swrr_inv_def)
    then have "?r ! j = ?T * (ws ! j - int (count_list (fst (run_n (swrr_step ws) (nat ?T) cur)) j))"
      using swrr_run_credit[OF assms(1) that, of "nat ?T"] T by (simp add: algebra_simps)
    moreover have "?T * (-1) < ?r ! j" using inv that by (auto simp: swrr_inv_def)
    ultimately have "-1 < ws ! j - int (count_list (fst (run_n (swrr_step ws) (nat ?T) cur)) j)"
      using T by (metis mult_less_cancel_left_pos)
    then have "0 \<le> ws ! j - int (count_list (fst (run_n (swrr_step ws) (nat ?T) cur)) j)" by simp
    with T \<open>?r ! j = _\<close> show ?thesis by (metis less_imp_le mult_nonneg_nonneg)
  qed
  have "\<forall>x \<in> set ?r. 0 \<le> x" using nonneg inv by (auto simp: swrr_inv_def in_set_conv_nth)
  moreover have "sum_list ?r = 0" using inv by (simp add: swrr_inv_def)
  ultimately have "\<forall>x \<in> set ?r. x = 0" by (simp add: sum_list_nonneg_eq_0_iff)
  with inv assms(3) show ?thesis by (auto simp: swrr_inv_def)
qed

lemma swrr_cycle_count:
  assumes "swrr_inv ws cur" "\<forall>c \<in> set cur. c = 0" "i < length ws"
  shows "int (count_list (fst (run_n (swrr_step ws) (nat (sum_list ws)) cur)) i) = ws ! i"
proof -
  have T: "0 < sum_list ws" using swrr_inv_total[OF assms(1)] .
  have "cur ! i = 0" using assms by (simp add: swrr_inv_def)
  with swrr_run_credit[OF assms(1,3), of "nat (sum_list ws)"] swrr_cycle_credit[OF assms] T
  show ?thesis by simp
qed

section \<open>The 64-bit code refines the specification\<close>

definition abs_ws :: "weighted \<Rightarrow> int list" where
  "abs_ws w = map (\<lambda>b. sint (wb_weight b)) (w_backends w)"

definition abs_cur :: "weighted \<Rightarrow> int list" where
  "abs_cur w = map (\<lambda>b. sint (wb_current b)) (w_backends w)"

lemma abs_cur_update: "abs_cur (w\<lparr>w_backends := bs\<rparr>) = map (\<lambda>b. sint (wb_current b)) bs"
  by (simp add: abs_cur_def)

text \<open>Credits stay below number of backends times total weight, which has to fit 64 bits.\<close>

definition w_safe :: "weighted \<Rightarrow> bool" where
  "w_safe w \<longleftrightarrow> swrr_inv (abs_ws w) (abs_cur w) \<and> sint (w_total w) = sum_list (abs_ws w) \<and>
     int (length (w_backends w)) * sum_list (abs_ws w) < 2 ^ 63"

lemma abs_length [simp]: "length (abs_ws w) = length (w_backends w)"
  "length (abs_cur w) = length (w_backends w)"
  by (simp_all add: abs_ws_def abs_cur_def)

lemma sum_list_lower: "\<forall>x \<in> set xs. - t \<le> x \<Longrightarrow> - (int (length xs) * t) \<le> sum_list (xs :: int list)"
  by (induction xs) (auto simp: algebra_simps)

lemma sum_list_member_le: "\<forall>x \<in> set xs. (0::int) \<le> x \<Longrightarrow> x \<in> set xs \<Longrightarrow> x \<le> sum_list xs"
  by (induction xs) (auto simp: add_increasing add_increasing2 sum_list_nonneg)

lemma credit_upper:
  assumes "swrr_inv ws cur" "c \<in> set cur"
  shows "c \<le> (int (length ws) - 1) * sum_list ws"
proof -
  have "sum_list cur = c + sum_list (remove1 c cur)"
    using assms(2) by (simp add: sum_list_map_remove1[of c cur "\<lambda>x. x", simplified])
  moreover have "- (int (length (remove1 c cur)) * sum_list ws) \<le> sum_list (remove1 c cur)"
    using assms(1) by (intro sum_list_lower) (auto simp: swrr_inv_def dest: in_set_remove1[THEN iffD1] notin_set_remove1 intro: less_imp_le set_remove1_subset[THEN subsetD])
  moreover have "int (length (remove1 c cur)) = int (length ws) - 1"
    using assms by (auto simp: swrr_inv_def length_remove1 of_nat_diff Suc_le_eq)
  ultimately show ?thesis using assms(1) by (simp add: swrr_inv_def)
qed

lemma w_safe_ranges:
  assumes "w_safe w" "i < length (w_backends w)"
  shows "- sum_list (abs_ws w) < abs_cur w ! i" "0 < abs_ws w ! i"
    "abs_cur w ! i + abs_ws w ! i < 2 ^ 63" "sum_list (abs_ws w) < 2 ^ 63"
    "0 < sum_list (abs_ws w)"
proof -
  let ?T = "sum_list (abs_ws w)" and ?n = "int (length (w_backends w))"
  have inv: "swrr_inv (abs_ws w) (abs_cur w)" and fit: "?n * ?T < 2 ^ 63"
    using assms(1) by (simp_all add: w_safe_def)
  show T: "0 < ?T" by (rule swrr_inv_total) fact
  show "- ?T < abs_cur w ! i" "0 < abs_ws w ! i"
    using inv assms(2) by (auto simp: swrr_inv_def)
  have "abs_cur w ! i \<le> (?n - 1) * ?T"
    using credit_upper[OF inv, of "abs_cur w ! i"] assms(2) by simp
  moreover have "abs_ws w ! i \<le> ?T"
    using inv assms(2) by (intro sum_list_member_le) (auto simp: swrr_inv_def intro: less_imp_le)
  moreover have "(?n - 1) * ?T + ?T = ?n * ?T" by (simp add: algebra_simps)
  ultimately show "abs_cur w ! i + abs_ws w ! i < 2 ^ 63" using fit by linarith
  have "1 \<le> ?n" using assms(2) by simp
  then have "?T \<le> ?n * ?T" using T by (simp add: mult_le_cancel_right1)
  with fit show "?T < 2 ^ 63" by linarith
qed

lemma add_weights_credit:
  assumes "w_safe w" "i < length (w_backends w)"
  shows "sint (wb_current (add_weights (w_backends w) ! i)) = abs_cur w ! i + abs_ws w ! i"
proof -
  have "abs_cur w ! i = sint (wb_current (w_backends w ! i))"
    and "abs_ws w ! i = sint (wb_weight (w_backends w ! i))"
    using assms(2) by (simp_all add: abs_cur_def abs_ws_def)
  with w_safe_ranges[OF assms] assms(2) show ?thesis
    by (simp add: add_weights_def sint64_add)
qed

lemma add_weights_abs:
  "w_safe w \<Longrightarrow> map (\<lambda>b. sint (wb_current b)) (add_weights (w_backends w)) = map2 (+) (abs_cur w) (abs_ws w)"
  by (rule nth_equalityI) (auto simp: add_weights_credit)

lemma best_index_abs:
  assumes "w_safe w"
  shows "best_index (add_weights (w_backends w)) = first_max (map2 (+) (abs_cur w) (abs_ws w))"
proof (rule first_best_unique)
  have "swrr_inv (abs_ws w) (abs_cur w)" using assms by (simp add: w_safe_def)
  then have ne: "map2 (+) (abs_cur w) (abs_ws w) \<noteq> []"
    by (rule swrr_added_nonempty)
  then show "first_best id (first_max (map2 (+) (abs_cur w) (abs_ws w))) (map2 (+) (abs_cur w) (abs_ws w))"
    by (rule first_max_first)
  have "add_weights (w_backends w) \<noteq> []" using ne add_weights_abs[OF assms] by auto
  then have "first_best (\<lambda>b. sint (wb_current b)) (best_index (add_weights (w_backends w)))
      (add_weights (w_backends w))"
    by (rule best_index_first)
  then show "first_best id (best_index (add_weights (w_backends w))) (map2 (+) (abs_cur w) (abs_ws w))"
    by (simp add: add_weights_abs[OF assms, symmetric] first_best_map comp_def)
qed

lemma w_safe_nonempty: "w_safe w \<Longrightarrow> w_backends w \<noteq> []"
  by (auto simp: w_safe_def swrr_inv_def abs_ws_def)

lemma w_Next_refines:
  assumes "w_safe w"
  shows "fst (w_Next w) = w_addrs w ! fst (swrr_step (abs_ws w) (abs_cur w))"
    and "abs_cur (snd (w_Next w)) = snd (swrr_step (abs_ws w) (abs_cur w))"
    and "abs_ws (snd (w_Next w)) = abs_ws w"
    and "w_safe (snd (w_Next w))"
proof -
  let ?bs = "add_weights (w_backends w)" and ?cs = "map2 (+) (abs_cur w) (abs_ws w)"
  let ?k = "first_max ?cs"
  have inv: "swrr_inv (abs_ws w) (abs_cur w)" using assms by (simp add: w_safe_def)
  have k: "?k < length (w_backends w)"
    using swrr_step_index[OF inv] by (simp add: swrr_step_def Let_def)
  have Next: "w_Next w = (wb_addr (?bs ! ?k), w\<lparr>w_backends :=
      ?bs[?k := (?bs ! ?k)\<lparr>wb_current := wb_current (?bs ! ?k) - w_total w\<rparr>]\<rparr>)"
    using w_safe_nonempty[OF assms] by (simp add: w_Next_def Let_def best_index_abs[OF assms])
  have "wb_addr (?bs ! ?k) = w_addrs w ! ?k"
    using k by (simp add: add_weights_def w_addrs_def)
  then show "fst (w_Next w) = w_addrs w ! fst (swrr_step (abs_ws w) (abs_cur w))"
    by (simp add: Next swrr_step_def Let_def)
  have "?cs ! ?k = sint (wb_current (?bs ! ?k))"
    using k by (simp add: add_weights_credit[OF assms])
  moreover have "0 < ?cs ! ?k" by (rule swrr_winner_positive[OF inv])
  moreover have "?cs ! ?k < 2 ^ 63" using w_safe_ranges(3)[OF assms k] k by simp
  ultimately have "sint (wb_current (?bs ! ?k) - w_total w) = ?cs ! ?k - sum_list (abs_ws w)"
    using w_safe_ranges(4,5)[OF assms k] assms by (simp add: sint64_diff w_safe_def)
  then show cur: "abs_cur (snd (w_Next w)) = snd (swrr_step (abs_ws w) (abs_cur w))"
    by (simp add: Next abs_cur_update map_update add_weights_abs[OF assms] swrr_step_def Let_def)
  show ws: "abs_ws (snd (w_Next w)) = abs_ws w"
    using arg_cong[OF w_Next_frame(2)[of w], of "map sint"] by (simp add: abs_ws_def comp_def)
  have "length (w_backends (snd (w_Next w))) = length (w_backends w)"
    using arg_cong[OF w_Next_frame(1)[of w], of length] by (simp add: w_addrs_def)
  with swrr_step_inv[OF inv] assms show "w_safe (snd (w_Next w))"
    by (simp add: w_safe_def cur ws w_Next_frame)
qed

lemma w_run_refines:
  assumes "w_safe w"
  shows "fst (run_n w_Next m w) = map ((!) (w_addrs w)) (fst (run_n (swrr_step (abs_ws w)) m (abs_cur w)))"
    and "abs_cur (snd (run_n w_Next m w)) = snd (run_n (swrr_step (abs_ws w)) m (abs_cur w))"
    and "w_safe (snd (run_n w_Next m w))"
  using assms
  by (induction m arbitrary: w) (simp_all add: w_Next_refines w_Next_frame)

section \<open>Freshly built lists are safe\<close>

definition fits :: "(nat \<Rightarrow> addr \<Rightarrow> int64) \<Rightarrow> addr list \<Rightarrow> bool" where
  "fits f as \<longleftrightarrow> int (length as) * (\<Sum>(j, a)\<leftarrow>enumerate 0 as. sint (f j a)) < 2 ^ 63"

lemma sint_sum_list:
  assumes "\<forall>x \<in> set ws. 0 \<le> sint x" "sum_list (map sint ws) < 2 ^ 63"
  shows "sint (sum_list (ws :: int64 list)) = sum_list (map sint ws)"
  using assms
proof (induction ws)
  case (Cons w ws)
  then have "sum_list (map sint ws) < 2 ^ 63" by simp
  moreover have "0 \<le> sum_list (map sint ws)" using Cons.prems(1) by (intro sum_list_nonneg) auto
  ultimately show ?case using Cons by (simp add: sint64_add)
qed simp

lemma build_safe:
  assumes "as \<noteq> []" "\<And>j a. 0 < sint (f j a)" "fits f as"
    "w_backends w = fst (build f 0 as 0)" "w_total w = snd (build f 0 as 0)"
  shows "w_safe w"
proof -
  let ?S = "\<Sum>(j, a)\<leftarrow>enumerate 0 as. sint (f j a)"
  have ws: "abs_ws w = map (\<lambda>(j, a). sint (f j a)) (enumerate 0 as)"
    and cur: "abs_cur w = replicate (length as) 0"
    using assms(4) by (auto simp: abs_ws_def abs_cur_def build_eq comp_def case_prod_unfold map_replicate_const)
  have pos: "\<forall>x \<in> set (abs_ws w). 0 < x" by (auto simp: ws assms(2))
  have ne: "abs_ws w \<noteq> []" using assms(1) by (simp add: ws enumerate_eq_zip)
  have S: "0 < ?S" using sum_list_pos[OF ne pos] by (simp add: ws)
  have "1 \<le> int (length as)" using assms(1) by (simp add: Suc_le_eq)
  then have "?S \<le> int (length as) * ?S" using S by (simp add: mult_le_cancel_right1)
  then have small: "?S < 2 ^ 63" using assms(3) by (simp add: fits_def)
  have "sint (sum_list (map (\<lambda>(j, a). f j a) (enumerate 0 as))) = ?S"
    using sint_sum_list[of "map (\<lambda>(j, a). f j a) (enumerate 0 as)"] small
    by (auto simp: comp_def case_prod_unfold assms(2) less_imp_le)
  then have tot: "sint (w_total w) = ?S" by (simp add: assms(5) build_eq)
  have inv: "swrr_inv (abs_ws w) (abs_cur w)"
    using ne pos S by (auto simp: swrr_inv_def cur assms(4) build_eq sum_list_replicate ws[symmetric])
  show ?thesis using inv tot assms(3) by (simp add: w_safe_def ws fits_def assms(4) build_eq)
qed

lemma init_weight_pos: "0 < sint (init_weight ws j a)"
  by (simp add: init_weight_def word_sless_alt)

lemma w_New_build:
  "w_backends (w_New as ws) = fst (build (init_weight ws) 0 as 0)"
  "w_total (w_New as ws) = snd (build (init_weight ws) 0 as 0)"
  by (simp_all add: w_New_def split: prod.splits)

lemma w_New_safe: "as \<noteq> [] \<Longrightarrow> fits (init_weight ws) as \<Longrightarrow> w_safe (w_New as ws)"
  by (rule build_safe[OF _ init_weight_pos _ w_New_build])

lemma w_New_addrs [simp]: "w_addrs (w_New as ws) = as"
  by (simp add: w_addrs_def w_New_build build_eq comp_def case_prod_unfold enumerate_eq_zip)

lemma w_New_nth:
  "i < length as \<Longrightarrow> w_backends (w_New as ws) ! i =
     \<lparr>wb_addr = as ! i, wb_weight = init_weight ws i (as ! i), wb_current = 0\<rparr>"
  by (simp add: w_New_build build_eq nth_enumerate_eq)

lemma w_New_length [simp]: "length (w_backends (w_New as ws)) = length as"
  by (simp add: w_New_build build_eq)

section \<open>Shares of a freshly built list\<close>

definition fresh :: "weighted \<Rightarrow> bool" where
  "fresh w \<longleftrightarrow> (\<forall>b \<in> set (w_backends w). wb_current b = 0)"

lemma fresh_abs: "fresh w \<longleftrightarrow> (\<forall>c \<in> set (abs_cur w). c = 0)"
  by (auto simp: fresh_def abs_cur_def)

lemma w_New_fresh: "fresh (w_New as ws)"
  by (auto simp: fresh_def w_New_build build_eq)

lemma count_list_nth_distinct:
  assumes "distinct as" "i < length as" "\<forall>k \<in> set ks. k < length as"
  shows "count_list (map ((!) as) ks) (as ! i) = count_list ks i"
  using assms(3) by (induction ks) (auto simp: nth_eq_iff_index_eq[OF assms(1) _ assms(2)])

lemma w_run_count:
  assumes "w_safe w" "distinct (w_addrs w)" "i < length (w_backends w)"
  shows "count_list (fst (run_n w_Next m w)) (w_addrs w ! i) =
    count_list (fst (run_n (swrr_step (abs_ws w)) m (abs_cur w))) i"
proof -
  have inv: "swrr_inv (abs_ws w) (abs_cur w)" using assms(1) by (simp add: w_safe_def)
  have len: "length (w_addrs w) = length (w_backends w)" by (simp add: w_addrs_def)
  show ?thesis
    unfolding w_run_refines(1)[OF assms(1)]
    using swrr_run_index[OF inv, of m] assms(3)
    by (intro count_list_nth_distinct[OF assms(2)]) (simp_all add: len)
qed

lemma weighted_list_eqI:
  fixes xs ys :: "weighted_backend list"
  assumes "map wb_addr xs = map wb_addr ys" "map wb_weight xs = map wb_weight ys"
    "map wb_current xs = map wb_current ys"
  shows "xs = ys"
proof -
  have len: "length xs = length ys" using assms(1) by (rule map_eq_imp_length_eq)
  show ?thesis
  proof (rule nth_equalityI[OF len])
    fix i assume "i < length xs"
    with len show "xs ! i = ys ! i"
      by (intro weighted_backend.equality) (use assms in \<open>simp_all add: list_eq_iff_nth_eq[of "map f xs" for f]\<close>)
  qed
qed

lemma w_run_frame:
  "map wb_addr (w_backends (snd (run_n w_Next m w))) = map wb_addr (w_backends w)"
  "map wb_weight (w_backends (snd (run_n w_Next m w))) = map wb_weight (w_backends w)"
  "w_total (snd (run_n w_Next m w)) = w_total w"
  by (induction m arbitrary: w) (auto simp: w_Next_frame w_Next_frame(1)[unfolded w_addrs_def])

lemma fresh_abs_nth: "fresh w \<Longrightarrow> i < length (w_backends w) \<Longrightarrow> abs_cur w ! i = 0"
  by (auto simp: fresh_abs)

lemma w_cycle:
  assumes "w_safe w" "fresh w" "distinct (w_addrs w)" "i < length (w_backends w)"
  shows "int (count_list (fst (run_n w_Next (nat (sint (w_total w))) w)) (w_addrs w ! i)) =
      sint (wb_weight (w_backends w ! i))"
    and "snd (run_n w_Next (nat (sint (w_total w))) w) = w"
proof -
  let ?m = "nat (sint (w_total w))"
  have inv: "swrr_inv (abs_ws w) (abs_cur w)" and tot: "sint (w_total w) = sum_list (abs_ws w)"
    using assms(1) by (simp_all add: w_safe_def)
  have zero: "\<forall>c \<in> set (abs_cur w). c = 0" using assms(2) by (simp add: fresh_abs)
  show "int (count_list (fst (run_n w_Next ?m w)) (w_addrs w ! i)) = sint (wb_weight (w_backends w ! i))"
    using swrr_cycle_count[OF inv zero, of i] assms(4)
    by (simp add: w_run_count[OF assms(1,3,4)] tot abs_ws_def)
  let ?r = "snd (run_n w_Next ?m w)"
  have len: "length (w_backends ?r) = length (w_backends w)"
    using w_run_frame(1)[of ?m w] by (rule map_eq_imp_length_eq)
  have "wb_current (w_backends ?r ! j) = wb_current (w_backends w ! j)" if j: "j < length (w_backends w)" for j
  proof -
    have "abs_cur ?r ! j = 0"
      using swrr_cycle_credit[OF inv zero, of j] j by (simp add: w_run_refines(2)[OF assms(1)] tot)
    then have "wb_current (w_backends ?r ! j) = 0" using j len by (simp add: abs_cur_def)
    moreover have "wb_current (w_backends w ! j) = 0" using assms(2) j by (simp add: fresh_def)
    ultimately show ?thesis by simp
  qed
  then have "map wb_current (w_backends ?r) = map wb_current (w_backends w)"
    by (auto simp: list_eq_iff_nth_eq len)
  then have "w_backends ?r = w_backends w"
    using w_run_frame[of ?m w] by (intro weighted_list_eqI)
  with w_run_frame(3)[of ?m w] show "?r = w" by simp
qed

lemma w_never_ahead:
  assumes "w_safe w" "fresh w" "distinct (w_addrs w)" "i < length (w_backends w)"
  shows "int (count_list (fst (run_n w_Next m w)) (w_addrs w ! i)) * sint (w_total w)
     < int m * sint (wb_weight (w_backends w ! i)) + sint (w_total w)"
proof -
  have inv: "swrr_inv (abs_ws w) (abs_cur w)" and tot: "sint (w_total w) = sum_list (abs_ws w)"
    using assms(1) by (simp_all add: w_safe_def)
  show ?thesis
    using swrr_never_ahead[OF inv, of i m] assms(4) fresh_abs_nth[OF assms(2,4)]
    by (simp add: w_run_count[OF assms(1,3,4)] tot abs_ws_def)
qed

section \<open>Replacing the list\<close>

lemma w_SetBackends_nth:
  "i < length as \<Longrightarrow> w_backends (w_SetBackends w as) ! i =
     \<lparr>wb_addr = as ! i, wb_weight = kept_weight (existing_weights (w_backends w)) i (as ! i), wb_current = 0\<rparr>"
  by (simp add: w_SetBackends_eq nth_enumerate_eq)

lemma existing_weights_None: "a \<notin> set (w_addrs w) \<Longrightarrow> existing_weights (w_backends w) a = None"
  by (simp add: existing_weights_def upd_all_notin w_addrs_def)

lemma existing_weights_Some:
  "distinct (w_addrs w) \<Longrightarrow> b \<in> set (w_backends w) \<Longrightarrow>
   existing_weights (w_backends w) (wb_addr b) = Some (wb_weight b)"
  unfolding existing_weights_def w_addrs_def by (rule upd_all_distinct)

lemma kept_weight_pos:
  fixes w :: weighted
  assumes "\<forall>b \<in> set (w_backends w). 0 < sint (wb_weight b)"
  shows "0 < sint (kept_weight (existing_weights (w_backends w)) j a)"
proof (cases "a \<in> wb_addr ` set (w_backends w)")
  case True
  then obtain b where "b \<in> set (w_backends w)" "existing_weights (w_backends w) a = Some (wb_weight b)"
    using upd_all_in[of a wb_addr "w_backends w" wb_weight Map.empty] by (auto simp: existing_weights_def)
  with assms show ?thesis by (simp add: kept_weight_def)
next
  case False
  then have "existing_weights (w_backends w) a = None"
    by (intro existing_weights_None) (simp add: w_addrs_def)
  then show ?thesis by (simp add: kept_weight_def)
qed

lemma w_SetBackends_safe:
  assumes "\<forall>b \<in> set (w_backends w). 0 < sint (wb_weight b)" "as \<noteq> []"
    "fits (kept_weight (existing_weights (w_backends w))) as"
  shows "w_safe (w_SetBackends w as)" "fresh (w_SetBackends w as)"
proof -
  show "w_safe (w_SetBackends w as)"
    by (rule build_safe[OF assms(2) kept_weight_pos[OF assms(1)] assms(3)])
      (simp_all add: w_SetBackends_def split: prod.splits)
  show "fresh (w_SetBackends w as)" by (auto simp: fresh_def w_SetBackends_eq)
qed

text \<open>An address that leaves the list and comes back has lost its weight.\<close>

lemma w_flap_weight:
  assumes "a \<notin> set live" "i < length as" "as ! i = a"
  shows "wb_weight (w_backends (w_SetBackends (w_SetBackends w live) as) ! i) = 1"
  using assms existing_weights_None[of a "w_SetBackends w live"]
  by (simp add: w_SetBackends_nth kept_weight_def)

end
