(* ===== verification/Least_Conn.thy ===== *)
theory Least_Conn
  imports Balancer_Iface
begin

text \<open>
  \<^verbatim>\<open>internal/balancer/leastconn.go\<close>. The map \<open>conns\<close> holds a pointer to an atomic
  counter per address; a pointer is created by the map and never stored under two keys, so the
  model keeps the counter's value in the map. An \<open>Acquire\<close> or \<open>Release\<close> whose pointer
  is dropped by a concurrent \<open>SetBackends\<close> changes an unreachable counter, which is the
  same as having run just before it.
\<close>

record least_conn =
  lc_backends :: "addr list"
  lc_conns :: "addr \<rightharpoonup> int64"

definition lc_New :: "addr list \<Rightarrow> least_conn" where
  "lc_New as = \<lparr>lc_backends = as, lc_conns = upd_all (\<lambda>a. a) (\<lambda>_. 0) Map.empty as\<rparr>"

definition lc_count :: "least_conn \<Rightarrow> addr \<Rightarrow> int64" where
  "lc_count lc a = (case lc_conns lc a of Some c \<Rightarrow> c | None \<Rightarrow> 0)"

definition lc_Next :: "least_conn \<Rightarrow> addr \<times> least_conn" where
  "lc_Next lc =
     (case lc_backends lc of
        [] \<Rightarrow> ('''', lc)
      | b # bs \<Rightarrow>
          ((b # bs) ! scan_best (\<lambda>x best. lc_count lc x <s lc_count lc best) 0 b 1 bs, lc))"

definition lc_Acquire :: "least_conn \<Rightarrow> addr \<Rightarrow> least_conn" where
  "lc_Acquire lc a =
     (case lc_conns lc a of
        None \<Rightarrow> lc
      | Some c \<Rightarrow> lc\<lparr>lc_conns := (lc_conns lc)(a \<mapsto> c + 1)\<rparr>)"

definition lc_Release :: "least_conn \<Rightarrow> addr \<Rightarrow> least_conn" where
  "lc_Release lc a =
     (case lc_conns lc a of
        None \<Rightarrow> lc
      | Some c \<Rightarrow> lc\<lparr>lc_conns := (lc_conns lc)(a \<mapsto> c + (- 1))\<rparr>)"

definition lc_SetBackends :: "least_conn \<Rightarrow> addr list \<Rightarrow> least_conn" where
  "lc_SetBackends lc as =
     (let newConns = upd_all (\<lambda>a. a)
            (\<lambda>a. case lc_conns lc a of Some existing \<Rightarrow> existing | None \<Rightarrow> 0) Map.empty as
      in lc\<lparr>lc_backends := as, lc_conns := newConns\<rparr>)"

definition lc_Len :: "least_conn \<Rightarrow> int" where
  "lc_Len lc = int (length (lc_backends lc))"

text \<open>Specification helpers: the addresses that have a counter.\<close>

definition lc_tracks :: "least_conn \<Rightarrow> addr \<Rightarrow> bool" where
  "lc_tracks lc a \<longleftrightarrow> lc_conns lc a \<noteq> None"

declare lc_count_def [go_defs] lc_Acquire_def [go_defs] lc_Release_def [go_defs]
  lc_SetBackends_def [go_defs] lc_Len_def [go_defs] lc_tracks_def [go_defs]

section \<open>The choice\<close>

lemma lc_Next_frame [go_frame]: "snd (lc_Next lc) = lc"
  by (simp add: lc_Next_def split: list.splits)

lemma lc_Next_first_min:
  assumes "lc_backends lc \<noteq> []"
  shows "\<exists>k. first_best (\<lambda>a. - sint (lc_count lc a)) k (lc_backends lc) \<and> fst (lc_Next lc) = lc_backends lc ! k"
proof -
  obtain b bs where bs: "lc_backends lc = b # bs" using assms by (cases "lc_backends lc") auto
  have "first_best (\<lambda>a. - sint (lc_count lc a))
      (scan_best (\<lambda>x best. lc_count lc x <s lc_count lc best) 0 b 1 bs) (b # bs)"
    by (rule scan_best_first) (simp add: word_sless_alt)
  then show ?thesis by (auto simp: lc_Next_def bs)
qed

lemma lc_Next_least:
  assumes "lc_backends lc \<noteq> []"
  shows "fst (lc_Next lc) \<in> set (lc_backends lc)"
    and "a \<in> set (lc_backends lc) \<Longrightarrow> sint (lc_count lc (fst (lc_Next lc))) \<le> sint (lc_count lc a)"
  using lc_Next_first_min[OF assms] by (auto simp: first_best_def in_set_conv_nth)

section \<open>The interfaces\<close>

interpretation lcb: balancer lc_Next lc_SetBackends lc_Len lc_backends
proof (unfold_locales, goal_cases)
  case (1 b)
  then show ?case by (simp add: lc_Next_def)
next
  case (2 b)
  then show ?case by (rule lc_Next_least)
qed (auto simp: go_defs go_frame)

interpretation lcc: counting_balancer lc_Next lc_SetBackends lc_Len lc_backends
    lc_Acquire lc_Release lc_count lc_tracks "\<lambda>_. True"
  by unfold_locales
    (auto simp: go_defs go_frame upd_all_const_key split: option.splits)

section \<open>The counters\<close>

definition lc_wf :: "least_conn \<Rightarrow> bool" where
  "lc_wf lc \<longleftrightarrow> dom (lc_conns lc) = set (lc_backends lc)"

lemma lc_wf_ops:
  "lc_wf (lc_New as)"
  "lc_wf (lc_SetBackends lc as)"
  "lc_wf lc \<Longrightarrow> lc_wf (lc_Acquire lc a)"
  "lc_wf lc \<Longrightarrow> lc_wf (lc_Release lc a)"
  "lc_wf lc \<Longrightarrow> lc_wf (snd (lc_Next lc))"
  by (auto simp: lc_wf_def lc_New_def lc_SetBackends_def upd_all_dom lc_Acquire_def lc_Release_def
      go_frame split: option.splits)

lemma lc_New_count [simp]: "lc_count (lc_New as) a = 0"
  by (simp add: lc_count_def lc_New_def upd_all_const_key)

lemma lc_New_tracks [simp]: "lc_tracks (lc_New as) a \<longleftrightarrow> a \<in> set as"
  by (simp add: lc_tracks_def lc_New_def upd_all_const_key)

end
