(* ===== verification/Balancers.thy ===== *)
theory Balancers
  imports Round_Robin Weighted_Fair Least_Conn
begin

text \<open>
  \<^verbatim>\<open>internal/balancer/balancer.go\<close>: the interface value. A Go value of type
  \<open>Balancer\<close> holds one of the three implementations, so it is a sum here; a method call is a
  dispatch on the constructor, and the type assertion \<open>lb.(*balancer.LeastConn)\<close> that the
  proxy and the TCP tunnel use before \<open>Acquire\<close> and \<open>Release\<close> is a match on
  \<open>LB_LeastConn\<close>.
\<close>

datatype lb =
    LB_RoundRobin round_robin
  | LB_Weighted weighted
  | LB_LeastConn least_conn

definition NewFromConfig :: "addr list \<Rightarrow> int64 list \<Rightarrow> string \<Rightarrow> lb" where
  "NewFromConfig as weights algorithm =
     (if algorithm = ''least_connections'' then LB_LeastConn (lc_New as)
      else if algorithm = ''weighted'' then LB_Weighted (w_New as weights)
      else LB_RoundRobin (rr_New as))"

fun lb_Next :: "lb \<Rightarrow> addr \<times> lb" where
  "lb_Next (LB_RoundRobin r) = (let (a, r') = rr_Next r in (a, LB_RoundRobin r'))"
| "lb_Next (LB_Weighted w) = (let (a, w') = w_Next w in (a, LB_Weighted w'))"
| "lb_Next (LB_LeastConn lc) = (let (a, lc') = lc_Next lc in (a, LB_LeastConn lc'))"

fun lb_SetBackends :: "lb \<Rightarrow> addr list \<Rightarrow> lb" where
  "lb_SetBackends (LB_RoundRobin r) as = LB_RoundRobin (rr_SetBackends r as)"
| "lb_SetBackends (LB_Weighted w) as = LB_Weighted (w_SetBackends w as)"
| "lb_SetBackends (LB_LeastConn lc) as = LB_LeastConn (lc_SetBackends lc as)"

fun lb_Len :: "lb \<Rightarrow> int" where
  "lb_Len (LB_RoundRobin r) = rr_Len r"
| "lb_Len (LB_Weighted w) = w_Len w"
| "lb_Len (LB_LeastConn lc) = lc_Len lc"

text \<open>\<open>if lc, ok := lb.(*balancer.LeastConn); ok { lc.Acquire(addr) }\<close> and its \<open>Release\<close>.\<close>

fun lb_Acquire :: "lb \<Rightarrow> addr \<Rightarrow> lb" where
  "lb_Acquire (LB_LeastConn lc) a = LB_LeastConn (lc_Acquire lc a)"
| "lb_Acquire b a = b"

fun lb_Release :: "lb \<Rightarrow> addr \<Rightarrow> lb" where
  "lb_Release (LB_LeastConn lc) a = LB_LeastConn (lc_Release lc a)"
| "lb_Release b a = b"

section \<open>Abstraction\<close>

fun lb_addrs :: "lb \<Rightarrow> addr list" where
  "lb_addrs (LB_RoundRobin r) = rr_backends r"
| "lb_addrs (LB_Weighted w) = w_addrs w"
| "lb_addrs (LB_LeastConn lc) = lc_backends lc"

fun lb_count :: "lb \<Rightarrow> addr \<Rightarrow> int64" where
  "lb_count (LB_LeastConn lc) a = lc_count lc a"
| "lb_count b a = 0"

fun lb_tracks :: "lb \<Rightarrow> addr \<Rightarrow> bool" where
  "lb_tracks (LB_LeastConn lc) a = lc_tracks lc a"
| "lb_tracks b a = False"

fun lb_counting :: "lb \<Rightarrow> bool" where
  "lb_counting (LB_LeastConn lc) = True"
| "lb_counting b = False"

lemma lb_Next_fst_snd [simp]:
  "fst (lb_Next (LB_RoundRobin r)) = fst (rr_Next r)"
  "snd (lb_Next (LB_RoundRobin r)) = LB_RoundRobin (snd (rr_Next r))"
  "fst (lb_Next (LB_Weighted w)) = fst (w_Next w)"
  "snd (lb_Next (LB_Weighted w)) = LB_Weighted (snd (w_Next w))"
  "fst (lb_Next (LB_LeastConn lc)) = fst (lc_Next lc)"
  "snd (lb_Next (LB_LeastConn lc)) = LB_LeastConn (snd (lc_Next lc))"
  by (simp_all add: Let_def split: prod.splits)

lemma lb_Next_empty: "lb_addrs b = [] \<Longrightarrow> lb_Next b = ('''', b)"
  by (cases b) (simp_all add: rrb.next_empty wb.next_empty lcb.next_empty)

declare lb_Next.simps [simp del]

interpretation lbb: balancer lb_Next lb_SetBackends lb_Len lb_addrs
proof (unfold_locales, goal_cases)
  case (1 b)
  then show ?case by (rule lb_Next_empty)
next
  case (2 b)
  then show ?case
    by (cases b) (simp_all add: rrb.next_live wb.next_live lcb.next_live)
next
  case (3 b)
  then show ?case
    by (cases b) simp_all
next
  case (4 b as)
  then show ?case by (cases b) simp_all
next
  case (5 b)
  then show ?case by (cases b) (simp_all add: rrb.len_addrs wb.len_addrs lcb.len_addrs)
qed

lemma lb_Next_counts:
  "lb_count (snd (lb_Next b)) x = lb_count b x"
  "lb_tracks (snd (lb_Next b)) x = lb_tracks b x"
  "lb_counting (snd (lb_Next b)) = lb_counting b"
  by (induction b) (simp_all only: lb_Next_fst_snd lc_Next_frame lb_count.simps lb_tracks.simps lb_counting.simps)

lemma lb_conn_addrs:
  "lb_addrs (lb_Acquire b a) = lb_addrs b" "lb_addrs (lb_Release b a) = lb_addrs b"
  by (cases b; simp)+

lemma lb_conn_tracks:
  "lb_tracks (lb_Acquire b a) x = lb_tracks b x" "lb_tracks (lb_Release b a) x = lb_tracks b x"
  "lb_tracks (lb_SetBackends b as) x \<longleftrightarrow> lb_counting b \<and> x \<in> set as"
  by (cases b; simp)+

lemma lb_conn_counting:
  "lb_counting (lb_Acquire b a) = lb_counting b" "lb_counting (lb_Release b a) = lb_counting b"
  "lb_counting (lb_SetBackends b as) = lb_counting b"
  by (cases b; simp)+

lemma lb_conn_count:
  "lb_count (lb_Acquire b a) x = (if x = a \<and> lb_tracks b a then lb_count b x + 1 else lb_count b x)"
  "lb_count (lb_Release b a) x = (if x = a \<and> lb_tracks b a then lb_count b x - 1 else lb_count b x)"
  "lb_count (lb_SetBackends b as) x = (if x \<in> set as \<and> lb_tracks b x then lb_count b x else 0)"
  by (cases b; simp add: lcc.count_acquire lcc.count_release lcc.count_set)+

interpretation lbc: counting_balancer lb_Next lb_SetBackends lb_Len lb_addrs
    lb_Acquire lb_Release lb_count lb_tracks lb_counting
  by unfold_locales (fact lb_Next_counts lb_conn_addrs lb_conn_tracks lb_conn_counting lb_conn_count)+

section \<open>The factory\<close>

lemma NewFromConfig_addrs [simp]: "lb_addrs (NewFromConfig as weights algorithm) = as"
  by (simp add: NewFromConfig_def rr_New_def lc_New_def)

lemma NewFromConfig_counting: "lb_counting (NewFromConfig as weights algorithm) \<longleftrightarrow> algorithm = ''least_connections''"
  by (simp add: NewFromConfig_def)

end
