(* ===== verification/Proxy.thy ===== *)
theory Proxy
  imports Http_Types Balancers
begin

text \<open>
  \<^verbatim>\<open>internal/proxy/proxy.go\<close>: the director, the two callbacks, and the path a request takes
  through Go's \<open>httputil.ReverseProxy\<close> between them. What the network does is the argument
  \<open>backend_result\<close>. \<open>url.Parse\<close> on \<open>"http://" + addr\<close> is the parameter
  \<open>parse\<close>, giving scheme and host. \<open>tracking\<close> is the string the request context points
  to; it is empty until the director stores the chosen address.
\<close>

datatype backend_result =
    RT_Error \<comment> \<open>the round trip failed, or the client asked for an invalid upgrade\<close>
  | RT_Response "int list" int string bool
      \<comment> \<open>informational statuses, final status, body, and whether the body was copied to the end\<close>
  | RT_Switching bool \<comment> \<open>101, and whether the protocols and the backend connection allow it\<close>

definition p_director ::
  "(string \<Rightarrow> (string \<times> string) option) \<Rightarrow> lb \<Rightarrow> request \<Rightarrow> lb \<times> string \<times> request" where
  "p_director parse b req =
     (let (a, b1) = lb_Next b;
          tracking = a;
          b2 = (if a \<noteq> '''' then lb_Acquire b1 a else b1)
      in if a = '''' then
           (b2, tracking, req\<lparr>rq_scheme := ''http'', rq_url_host := ''127.0.0.1:0'', rq_path := ''/''\<rparr>)
         else
           (case parse (''http://'' @ a) of
              None \<Rightarrow> (b2, tracking, req)
            | Some (scheme, host) \<Rightarrow>
                let req1 = req\<lparr>rq_scheme := scheme, rq_url_host := host, rq_host := host\<rparr>
                in (b2, tracking,
                    if rq_remote req \<noteq> ''''
                    then req1\<lparr>rq_header := header_set (rq_header req1) XFF (rq_remote req)\<rparr>
                    else req1)))"

definition p_ModifyResponse :: "lb \<Rightarrow> string \<Rightarrow> lb" where
  "p_ModifyResponse b tracking = (if tracking \<noteq> '''' then lb_Release b tracking else b)"

definition p_ErrorHandler :: "lb \<Rightarrow> string \<Rightarrow> lb \<times> w_call list" where
  "p_ErrorHandler b tracking =
     (let b1 = (if tracking \<noteq> '''' then lb_Release b tracking else b)
      in if tracking = ''''
         then (b1, http_error ''503 Service Unavailable'' 503)
         else (b1, http_error ''502 Bad Gateway'' 502))"

text \<open>
  \<open>ReverseProxy.ServeHTTP\<close> around them. \<open>hijackable\<close>: the writer it was given can be
  hijacked, which a protocol switch needs. When a switch fails after \<open>ModifyResponse\<close> has
  run, the error handler runs too. A body that breaks off aborts the handler with a panic.
\<close>

definition p_ServeHTTP ::
  "(string \<Rightarrow> (string \<times> string) option) \<Rightarrow> bool \<Rightarrow> backend_result \<Rightarrow> lb handler" where
  "p_ServeHTTP parse hijackable result req b =
     (let (b1, tracking, outreq) = p_director parse b req
      in case result of
           RT_Error \<Rightarrow> let (b2, calls) = p_ErrorHandler b1 tracking in (calls, Returned, b2)
         | RT_Response infos status body complete \<Rightarrow>
             (map W_WriteHeader infos @ [W_WriteHeader status, W_Write body],
              (if complete then Returned else Panicked),
              p_ModifyResponse b1 tracking)
         | RT_Switching ok \<Rightarrow>
             let b2 = p_ModifyResponse b1 tracking
             in if ok \<and> hijackable then ([W_WriteHeader 101], Returned, b2)
                else let (b3, calls) = p_ErrorHandler b2 tracking in (calls, Returned, b3))"

text \<open>
  The forwarded-for header that leaves: \<open>ReverseProxy\<close> appends the peer's address to what
  the director left in the request.
\<close>

definition rp_forwarded_for :: "request \<Rightarrow> request \<Rightarrow> string list" where
  "rp_forwarded_for req outreq =
     (case SplitHostPort (rq_remote req) of
        Inl err \<Rightarrow> rq_header outreq XFF
      | Inr (ip, port) \<Rightarrow>
          (case rq_header outreq XFF of
             [] \<Rightarrow> [ip]
           | v # vs \<Rightarrow> [foldl (\<lambda>s x. s @ '', '' @ x) v (vs @ [ip])]))"

section \<open>Director\<close>

lemma p_director_lb:
  "fst (p_director parse b req) =
     (if fst (lb_Next b) \<noteq> '''' then lb_Acquire (snd (lb_Next b)) (fst (lb_Next b)) else snd (lb_Next b))"
  "fst (snd (p_director parse b req)) = fst (lb_Next b)"
  by (auto simp: p_director_def Let_def split: prod.splits option.splits)

lemma p_director_target:
  assumes "fst (lb_Next b) \<noteq> ''''" "parse (''http://'' @ fst (lb_Next b)) = Some (scheme, host)"
  shows "rq_url_host (snd (snd (p_director parse b req))) = host"
    "rq_host (snd (snd (p_director parse b req))) = host"
    "rq_scheme (snd (snd (p_director parse b req))) = scheme"
    "rq_path (snd (snd (p_director parse b req))) = rq_path req"
    "rq_remote req \<noteq> '''' \<Longrightarrow> rq_header (snd (snd (p_director parse b req))) XFF = [rq_remote req]"
  using assms by (auto simp: p_director_def Let_def header_set_def split: prod.splits)

lemma p_director_dead:
  assumes "fst (lb_Next b) = ''''"
  shows "rq_url_host (snd (snd (p_director parse b req))) = ''127.0.0.1:0''"
  using assms by (auto simp: p_director_def Let_def split: prod.splits)

section \<open>Counters\<close>

text \<open>The balancer a request leaves behind, by the way it ended.\<close>

lemma p_ServeHTTP_lb:
  "snd (snd (p_ServeHTTP parse hj result req b)) =
    (let a = fst (lb_Next b); b1 = snd (lb_Next b)
     in if a = '''' then b1
        else case result of
            RT_Switching ok \<Rightarrow>
              if ok \<and> hj then lb_Release (lb_Acquire b1 a) a
              else lb_Release (lb_Release (lb_Acquire b1 a) a) a
          | _ \<Rightarrow> lb_Release (lb_Acquire b1 a) a)"
proof -
  obtain b1 t out where d: "p_director parse b req = (b1, t, out)" by (metis prod_cases3)
  with p_director_lb[of parse b req] show ?thesis
    by (auto simp: p_ServeHTTP_def p_ErrorHandler_def p_ModifyResponse_def Let_def split: backend_result.splits)
qed

lemma p_ServeHTTP_balanced:
  assumes "\<And>ok. result = RT_Switching ok \<Longrightarrow> ok \<and> hj"
  shows "lb_count (snd (snd (p_ServeHTTP parse hj result req b))) x = lb_count b x"
  using assms
  by (auto simp: p_ServeHTTP_lb Let_def lbc.release_acquire_count lb_Next_counts split: backend_result.splits)

lemma p_ServeHTTP_double_release:
  assumes "fst (lb_Next b) = a" "a \<noteq> ''''" "lb_tracks b a" "\<not> (ok \<and> hj)"
  shows "lb_count (snd (snd (p_ServeHTTP parse hj (RT_Switching ok) req b))) a = lb_count b a - 1"
  using assms
  by (auto simp: p_ServeHTTP_lb Let_def lb_conn_count lb_conn_tracks lb_Next_counts)

section \<open>Answers\<close>

lemma p_ServeHTTP_answers:
  "fst (lb_Next b) = '''' \<Longrightarrow> fst (p_ServeHTTP parse hj RT_Error req b) = http_error ''503 Service Unavailable'' 503"
  "fst (lb_Next b) \<noteq> '''' \<Longrightarrow> fst (p_ServeHTTP parse hj RT_Error req b) = http_error ''502 Bad Gateway'' 502"
  "fst (p_ServeHTTP parse hj (RT_Response infos status body complete) req b) =
     map W_WriteHeader infos @ [W_WriteHeader status, W_Write body]"
proof -
  obtain b1 t out where d: "p_director parse b req = (b1, t, out)" by (metis prod_cases3)
  with p_director_lb(2)[of parse b req] show
  "fst (lb_Next b) = '''' \<Longrightarrow> fst (p_ServeHTTP parse hj RT_Error req b) = http_error ''503 Service Unavailable'' 503"
  "fst (lb_Next b) \<noteq> '''' \<Longrightarrow> fst (p_ServeHTTP parse hj RT_Error req b) = http_error ''502 Bad Gateway'' 502"
  "fst (p_ServeHTTP parse hj (RT_Response infos status body complete) req b) =
     map W_WriteHeader infos @ [W_WriteHeader status, W_Write body]"
    by (auto simp: p_ServeHTTP_def p_ErrorHandler_def Let_def)
qed

lemma p_ServeHTTP_addrs: "lb_addrs (snd (snd (p_ServeHTTP parse hj result req b))) = lb_addrs b"
  by (auto simp: p_ServeHTTP_lb Let_def lb_conn_addrs split: backend_result.splits)

end
