(* ===== verification/Tasks.thy ===== *)
theory Tasks
  imports Balancers
begin

text \<open>
  Goroutines that share one balancer: one per connection or request, started by an accept loop, and
  the health checker that pushes lists at any moment. A goroutine is its local state \<open>'c\<close>; one of
  its steps reads an input from outside (the result of a dial, of a round trip) and may call the
  balancer once. The locale states what such a component owes the least-connections counters, and
  proves the invariant they give; the TCP tunnel and the reverse proxy instantiate it.
\<close>

record 'c task_sys =
  tk_lb :: lb
  tk_open :: bool
  tk_tasks :: "nat \<rightharpoonup> 'c"

definition task_init :: "lb \<Rightarrow> 'c task_sys" where
  "task_init b = \<lparr>tk_lb = b, tk_open = True, tk_tasks = Map.empty\<rparr>"

text \<open>
  \<open>allowed\<close> restricts the lists the health checker pushes and \<open>input_ok\<close> what comes from outside,
  so that a property can speak of some runs only. \<open>stop\<close> is an error of the accept loop, which ends it; the
  goroutines go on.
\<close>

inductive task_step ::
  "('i \<Rightarrow> 'c \<Rightarrow> lb \<Rightarrow> 'c \<times> lb) \<Rightarrow> 'c \<Rightarrow> ('i \<Rightarrow> bool) \<Rightarrow> (addr list \<Rightarrow> bool) \<Rightarrow> 'c task_sys \<Rightarrow> 'c task_sys \<Rightarrow> bool"
  for step start input_ok allowed where
  spawn: "tk_open s \<Longrightarrow> tk_tasks s i = None \<Longrightarrow>
    task_step step start input_ok allowed s (s\<lparr>tk_tasks := (tk_tasks s)(i \<mapsto> start)\<rparr>)"
| stop: "tk_open s \<Longrightarrow> task_step step start input_ok allowed s (s\<lparr>tk_open := False\<rparr>)"
| run: "tk_tasks s i = Some c \<Longrightarrow> input_ok x \<Longrightarrow> step x c (tk_lb s) = (c', b) \<Longrightarrow>
    task_step step start input_ok allowed s (s\<lparr>tk_lb := b, tk_tasks := (tk_tasks s)(i \<mapsto> c')\<rparr>)"
| push: "allowed as \<Longrightarrow>
    task_step step start input_ok allowed s (s\<lparr>tk_lb := lb_SetBackends (tk_lb s) as\<rparr>)"

text \<open>The goroutines that hold a count on an address.\<close>

definition holders :: "('c \<Rightarrow> addr option) \<Rightarrow> 'c task_sys \<Rightarrow> addr \<Rightarrow> nat set" where
  "holders holds s a = {i. \<exists>c. tk_tasks s i = Some c \<and> holds c = Some a}"

definition held :: "addr option \<Rightarrow> addr \<Rightarrow> int64" where
  "held h a = (if h = Some a then 1 else 0)"

text \<open>Calls of \<open>Next\<close> leave the counters alone.\<close>

lemma lb_Next_to:
  assumes "lb_Next b = (a, b1)"
  shows "lb_count b1 x = lb_count b x" "lb_tracks b1 x = lb_tracks b x"
    "lb_counting b1 = lb_counting b" "lb_addrs b1 = lb_addrs b"
  using lb_Next_counts[of b] lbb.addrs_next[of b] assms by simp_all

lemma holders_finite: "finite (dom (tk_tasks s)) \<Longrightarrow> finite (holders holds s a)"
  by (rule finite_subset[of _ "dom (tk_tasks s)"]) (auto simp: holders_def)

lemma holders_frame [simp]:
  "holders holds (s\<lparr>tk_lb := b\<rparr>) a = holders holds s a"
  "holders holds (s\<lparr>tk_open := l\<rparr>) a = holders holds s a"
  by (simp_all add: holders_def)

lemma holders_upd:
  "holders holds (s\<lparr>tk_lb := b, tk_tasks := (tk_tasks s)(i \<mapsto> c)\<rparr>) a =
     (if holds c = Some a then insert i (holders holds s a) else holders holds s a - {i})"
  by (auto simp: holders_def)

lemma holders_spawn:
  "tk_tasks s i = None \<Longrightarrow> holds start = None \<Longrightarrow>
   holders holds (s\<lparr>tk_tasks := (tk_tasks s)(i \<mapsto> start)\<rparr>) a = holders holds s a"
  by (auto simp: holders_def)

locale counted_tasks =
  fixes step :: "'i \<Rightarrow> 'c \<Rightarrow> lb \<Rightarrow> 'c \<times> lb"
    and start :: 'c
    and input_ok :: "'i \<Rightarrow> bool"
    and holds :: "'c \<Rightarrow> addr option"
    and task_ok :: "'c \<Rightarrow> bool"
  assumes step_count:
      "task_ok c \<Longrightarrow> input_ok x \<Longrightarrow> lb_count (snd (step x c b)) a =
        lb_count b a + (if lb_tracks b a then held (holds (fst (step x c b))) a - held (holds c) a else 0)"
    and step_counting: "lb_counting (snd (step x c b)) = lb_counting b"
    and step_tracks: "lb_tracks (snd (step x c b)) a = lb_tracks b a"
    and start_holds: "holds start = None"
    and start_ok: "task_ok start"
    and step_ok: "task_ok c \<Longrightarrow> input_ok x \<Longrightarrow> task_ok (fst (step x c b))"
begin

definition tasks_inv :: "addr \<Rightarrow> 'c task_sys \<Rightarrow> bool" where
  "tasks_inv a s \<longleftrightarrow> finite (dom (tk_tasks s)) \<and> lb_counting (tk_lb s) \<and> lb_tracks (tk_lb s) a \<and>
     lb_count (tk_lb s) a = of_nat (card (holders holds s a)) \<and> (\<forall>c\<in>ran (tk_tasks s). task_ok c)"

lemma inv_run:
  assumes "tk_tasks s i = Some c" "input_ok x" "step x c (tk_lb s) = (c', b)" "tasks_inv a s"
  shows "tasks_inv a (s\<lparr>tk_lb := b, tk_tasks := (tk_tasks s)(i \<mapsto> c')\<rparr>)"
proof -
  let ?h = "holders holds s a"
  have b: "b = snd (step x c (tk_lb s))" and c': "c' = fst (step x c (tk_lb s))"
    using assms(3) by simp_all
  have inv: "finite ?h" "lb_tracks (tk_lb s) a" "lb_count (tk_lb s) a = of_nat (card ?h)"
    using assms(4) by (simp_all add: tasks_inv_def holders_finite)
  have ok: "task_ok c" using assms(1,4) by (auto simp: tasks_inv_def ran_def)
  have mem: "i \<in> ?h \<longleftrightarrow> holds c = Some a" using assms(1) by (simp add: holders_def)
  have card: "card ?h = card (?h - {i}) + (if holds c = Some a then 1 else 0)"
    using inv(1) mem card.remove[OF inv(1), of i] by auto
  have ins: "card (insert i ?h) = card (?h - {i}) + 1"
    using inv(1) by (simp add: card.insert_remove)
  have "lb_count b a = of_nat (card (holders holds (s\<lparr>tk_lb := b, tk_tasks := (tk_tasks s)(i \<mapsto> c')\<rparr>) a))"
    unfolding holders_upd
    using step_count[OF ok assms(2), of "tk_lb s" a] inv(2,3) card ins by (auto simp: b c' held_def split: if_splits)
  moreover have "task_ok c'"
    unfolding c' by (rule step_ok[OF ok assms(2)])
  ultimately show ?thesis
    using assms(4) by (auto simp: tasks_inv_def b step_counting step_tracks ran_def)
qed

lemma inv_step:
  assumes "task_step step start input_ok (\<lambda>as. a \<in> set as) s t" "tasks_inv a s"
  shows "tasks_inv a t"
  using assms
proof (cases rule: task_step.cases)
  case (spawn i)
  then show ?thesis using assms(2) start_ok
    by (auto simp: tasks_inv_def holders_spawn start_holds ran_def)
next
  case stop
  then show ?thesis using assms(2) by (simp add: tasks_inv_def)
next
  case (run i c x c' b)
  then show ?thesis using assms(2) by (auto intro: inv_run)
next
  case (push as)
  then show ?thesis using assms(2)
    by (simp add: tasks_inv_def lb_conn_counting lb_conn_tracks lb_conn_count)
qed

lemma inv_init:
  "a \<in> set as \<Longrightarrow> tasks_inv a (task_init (NewFromConfig as ws ''least_connections''))"
  by (simp add: tasks_inv_def task_init_def NewFromConfig_def holders_def)

lemma inv_reach:
  assumes "(task_step step start input_ok (\<lambda>as. a \<in> set as))\<^sup>*\<^sup>* s t" "tasks_inv a s"
  shows "tasks_inv a t"
  using assms by (induction rule: rtranclp_induct) (auto intro: inv_step)

text \<open>
  In every run in which an address stays listed, its counter is the number of goroutines that hold a
  count on it, and every goroutine is in order.
\<close>

lemma reach_counts:
  assumes "a \<in> set as"
    "(task_step step start input_ok (\<lambda>as. a \<in> set as))\<^sup>*\<^sup>*
       (task_init (NewFromConfig as ws ''least_connections'')) s"
  shows "lb_count (tk_lb s) a = of_nat (card (holders holds s a))"
    and "tk_tasks s i = Some c \<Longrightarrow> task_ok c"
  using inv_reach[OF assms(2) inv_init[OF assms(1)]] by (auto simp: tasks_inv_def ran_def)

end

end
