(* ===== verification/Proxy_Tasks.thy ===== *)
theory Proxy_Tasks
  imports Proxy Tasks
begin

text \<open>
  Requests of \<^verbatim>\<open>internal/proxy/proxy.go\<close> that run at the same time. A request is cut at
  its calls of the balancer: \<open>Next\<close> and \<open>Acquire\<close> in the director, \<open>Release\<close> in \<open>ModifyResponse\<close>,
  which runs when the response's headers are there, and in \<open>ErrorHandler\<close>. The copy of the body comes after
  \<open>ModifyResponse\<close>. Run without interference the steps are \<open>p_ServeHTTP\<close>.
\<close>

datatype rq_pc =
    RQ_Next
  | RQ_Acquire addr
  | RQ_Trip addr
  | RQ_Headers addr backend_result
  | RQ_Failed addr
  | RQ_Body addr
  | RQ_Done

definition proxy_step :: "bool \<Rightarrow> backend_result \<Rightarrow> rq_pc \<Rightarrow> lb \<Rightarrow> rq_pc \<times> lb" where
  "proxy_step hijackable result pc b =
     (case pc of
        RQ_Next \<Rightarrow> let (a, b1) = lb_Next b in (if a = '''' then RQ_Trip '''' else RQ_Acquire a, b1)
      | RQ_Acquire a \<Rightarrow> (RQ_Trip a, lb_Acquire b a)
      | RQ_Trip a \<Rightarrow> (if result = RT_Error then RQ_Failed a else RQ_Headers a result, b)
      | RQ_Headers a res \<Rightarrow>
          (case res of
             RT_Switching ok \<Rightarrow> if ok \<and> hijackable then RQ_Done else RQ_Failed a
           | _ \<Rightarrow> RQ_Body a,
           p_ModifyResponse b a)
      | RQ_Failed a \<Rightarrow> (RQ_Done, fst (p_ErrorHandler b a))
      | RQ_Body a \<Rightarrow> (RQ_Done, b)
      | RQ_Done \<Rightarrow> (RQ_Done, b))"

text \<open>The count a request holds: from \<open>Acquire\<close> to its first \<open>Release\<close>.\<close>

fun rq_held :: "rq_pc \<Rightarrow> addr option" where
  "rq_held (RQ_Trip a) = (if a = '''' then None else Some a)"
| "rq_held (RQ_Headers a res) = (if a = '''' then None else Some a)"
| "rq_held (RQ_Failed a) = (if a = '''' then None else Some a)"
| "rq_held pc = None"

text \<open>No response in the system is a protocol switch, and nobody acquires the empty address.\<close>

fun rq_ok :: "rq_pc \<Rightarrow> bool" where
  "rq_ok (RQ_Acquire a) = (a \<noteq> '''')"
| "rq_ok (RQ_Headers a res) = (\<exists>infos status body full. res = RT_Response infos status body full)"
| "rq_ok pc = True"

definition no_switch :: "backend_result \<Rightarrow> bool" where
  "no_switch result = (case result of RT_Switching ok \<Rightarrow> False | _ \<Rightarrow> True)"

lemma p_handlers_lb:
  "p_ModifyResponse b a = (if a = '''' then b else lb_Release b a)"
  "fst (p_ErrorHandler b a) = (if a = '''' then b else lb_Release b a)"
  by (simp_all add: p_ModifyResponse_def p_ErrorHandler_def Let_def)

lemma proxy_step_lb:
  "lb_counting (snd (proxy_step hj x c b)) = lb_counting b"
  "lb_tracks (snd (proxy_step hj x c b)) a = lb_tracks b a"
  "lb_addrs (snd (proxy_step hj x c b)) = lb_addrs b"
  by (cases c; auto simp: proxy_step_def p_handlers_lb lb_Next_to lb_conn_counting lb_conn_tracks lb_conn_addrs
      split: prod.splits)+

section \<open>Without interference\<close>

fun run_request :: "nat \<Rightarrow> bool \<Rightarrow> backend_result \<Rightarrow> rq_pc \<times> lb \<Rightarrow> rq_pc \<times> lb" where
  "run_request 0 hj res st = st"
| "run_request (Suc n) hj res st = run_request n hj res (proxy_step hj res (fst st) (snd st))"

lemma proxy_step_pcs:
  "proxy_step hj res RQ_Next b =
     (if fst (lb_Next b) = '''' then RQ_Trip '''' else RQ_Acquire (fst (lb_Next b)), snd (lb_Next b))"
  "proxy_step hj res (RQ_Acquire a) b = (RQ_Trip a, lb_Acquire b a)"
  "proxy_step hj res (RQ_Trip a) b = (if res = RT_Error then RQ_Failed a else RQ_Headers a res, b)"
  "proxy_step hj res (RQ_Failed a) b = (RQ_Done, fst (p_ErrorHandler b a))"
  "proxy_step hj res (RQ_Body a) b = (RQ_Done, b)"
  "proxy_step hj res RQ_Done b = (RQ_Done, b)"
  by (simp_all add: proxy_step_def Let_def split: prod.split)

lemma proxy_step_headers:
  "proxy_step hj res (RQ_Headers a (RT_Response infos status body full)) b = (RQ_Body a, p_ModifyResponse b a)"
  "proxy_step hj res (RQ_Headers a (RT_Switching ok)) b =
     (if ok \<and> hj then RQ_Done else RQ_Failed a, p_ModifyResponse b a)"
  by (simp_all add: proxy_step_def)

lemma run_request_serves:
  "run_request 6 hj res (RQ_Next, b) = (RQ_Done, snd (snd (p_ServeHTTP parse hj res req b)))"
  by (cases res)
    (simp_all add: numeral_eq_Suc proxy_step_pcs proxy_step_headers p_ServeHTTP_lb p_handlers_lb Let_def)

section \<open>Many requests\<close>

lemma proxy_step_count:
  assumes "rq_ok c" "no_switch x"
  shows "lb_count (snd (proxy_step hj x c b)) a =
    lb_count b a + (if lb_tracks b a then held (rq_held (fst (proxy_step hj x c b))) a - held (rq_held c) a else 0)"
  using assms
  by (cases c)
    (auto simp: proxy_step_def p_handlers_lb held_def lb_conn_count lb_Next_to Let_def split: prod.splits)

lemma proxy_step_ok: "rq_ok c \<Longrightarrow> no_switch x \<Longrightarrow> rq_ok (fst (proxy_step hj x c b))"
  by (cases c; cases x) (auto simp: proxy_step_def no_switch_def Let_def split: prod.splits)

type_synonym rq_sys = "rq_pc task_sys"

text \<open>The requests of a gate whose backends never switch protocols; the server accepts until it stops.\<close>

definition proxy_run :: "(addr list \<Rightarrow> bool) \<Rightarrow> rq_sys \<Rightarrow> rq_sys \<Rightarrow> bool" where
  "proxy_run = task_step (proxy_step False) RQ_Next no_switch"

interpretation rq: counted_tasks "proxy_step False" RQ_Next no_switch rq_held rq_ok
  by unfold_locales (simp_all add: proxy_step_count proxy_step_lb proxy_step_ok)

lemma proxy_run_step:
  "tk_tasks s i = Some c \<Longrightarrow> no_switch x \<Longrightarrow>
   proxy_run allowed s (s\<lparr>tk_lb := snd (proxy_step False x c (tk_lb s)),
     tk_tasks := (tk_tasks s)(i \<mapsto> fst (proxy_step False x c (tk_lb s)))\<rparr>)"
  unfolding proxy_run_def by (rule task_step.run[of s i c _ x]) simp_all

text \<open>Requests that await their response's headers, and those whose body is on its way.\<close>

definition awaiting :: "rq_sys \<Rightarrow> addr \<Rightarrow> nat set" where
  "awaiting s a = holders rq_held s a"

definition copying :: "rq_sys \<Rightarrow> addr \<Rightarrow> nat set" where
  "copying s a = {i. tk_tasks s i = Some (RQ_Body a)}"

lemma copying_not_awaiting: "copying s a \<inter> awaiting s a = {}"
  by (auto simp: copying_def awaiting_def holders_def)

end
