(* ===== verification/Flux_Shield.thy ===== *)
theory Flux_Shield
  imports Http_Types Go_Float
begin

text \<open>
  \<^verbatim>\<open>internal/ratelimit/fluxshield.go\<close>: one token bucket per client address. The bucket
  (\<open>rate.Limiter\<close> of \<^verbatim>\<open>golang.org/x/time/rate\<close>) is not part of the repository, so
  a pair of operations on an unknown limiter type is a parameter: make a full one, and ask it for
  a token at a time. Times are nanoseconds. The methods that take the lock are atomic steps;
  \<open>Allow\<close> runs after the lock is released, on a limiter whose entry was touched just before,
  so \<open>cleanup\<close> cannot have dropped it and the two steps are one here.
\<close>

record 'l limiter_ops =
  lim_new :: "f64 \<Rightarrow> int64 \<Rightarrow> 'l"
  lim_allow :: "int \<Rightarrow> 'l \<Rightarrow> bool \<times> 'l"

record 'l peer =
  en_limiter :: 'l
  en_lastSeen :: int

record 'l flux_shield =
  fs_rps :: f64
  fs_burst :: int64
  fs_peers :: "string \<rightharpoonup> 'l peer"

definition fs_New :: "f64 \<Rightarrow> int64 \<Rightarrow> 'l flux_shield" where
  "fs_New rps burst = \<lparr>fs_rps = rps, fs_burst = burst, fs_peers = Map.empty\<rparr>"

text \<open>\<open>limiter\<close>: the entry of \<open>ip\<close>, created if needed, with \<open>lastSeen\<close> set to now.\<close>

definition fs_limiter :: "'l limiter_ops \<Rightarrow> 'l flux_shield \<Rightarrow> string \<Rightarrow> int \<Rightarrow> 'l \<times> 'l flux_shield" where
  "fs_limiter L fs ip now =
     (let e = (case fs_peers fs ip of
                 Some e \<Rightarrow> e
               | None \<Rightarrow> \<lparr>en_limiter = lim_new L (fs_rps fs) (fs_burst fs), en_lastSeen = 0\<rparr>);
          e' = e\<lparr>en_lastSeen := now\<rparr>
      in (en_limiter e', fs\<lparr>fs_peers := (fs_peers fs)(ip \<mapsto> e')\<rparr>))"

text \<open>\<open>fs.limiter(ip).Allow()\<close>; the limiter is shared by pointer, so its change shows in the map.\<close>

definition fs_allow :: "'l limiter_ops \<Rightarrow> 'l flux_shield \<Rightarrow> string \<Rightarrow> int \<Rightarrow> bool \<times> 'l flux_shield" where
  "fs_allow L fs ip now =
     (let (l, fs1) = fs_limiter L fs ip now;
          (ok, l') = lim_allow L now l
      in (ok, fs1\<lparr>fs_peers := (fs_peers fs1)(ip \<mapsto> \<lparr>en_limiter = l', en_lastSeen = now\<rparr>)\<rparr>))"

text \<open>One tick of \<open>cleanup\<close> at time \<open>now\<close>: drop what was last seen before the cutoff.\<close>

definition idle_ns :: int where
  "idle_ns = 60 * 1000000000"

definition fs_cleanup :: "'l flux_shield \<Rightarrow> int \<Rightarrow> 'l flux_shield" where
  "fs_cleanup fs now =
     (let cutoff = now - idle_ns
      in fs\<lparr>fs_peers := (\<lambda>ip. case fs_peers fs ip of
            None \<Rightarrow> None
          | Some e \<Rightarrow> if en_lastSeen e < cutoff then None else Some e)\<rparr>)"

definition extractIP :: "request \<Rightarrow> string" where
  "extractIP r =
     (let xff = header_get (rq_header r) XFF;
          ip = TrimSpace (hd (split_n2 (CHR '','') xff))
      in if xff \<noteq> '''' \<and> ip \<noteq> '''' then ip
         else (case SplitHostPort (rq_remote r) of
                 Inl err \<Rightarrow> rq_remote r
               | Inr (host, port) \<Rightarrow> host))"

definition fs_Middleware ::
  "'l limiter_ops \<Rightarrow> int \<Rightarrow> 's handler \<Rightarrow> ('s \<times> 'l flux_shield) handler" where
  "fs_Middleware L now next r st =
     (let (s, fs) = st;
          ip = extractIP r;
          (ok, fs') = fs_allow L fs ip now
      in if \<not> ok
         then ([W_Header ''Retry-After'' ''1''] @ http_error ''Too Many Requests'' 429, Returned, (s, fs'))
         else let (calls, res, s') = next r s in (calls, res, (s', fs')))"

section \<open>One client does not see another\<close>

lemma fs_allow_peer:
  "fst (fs_allow L fs ip now) =
     fst (lim_allow L now (case fs_peers fs ip of Some e \<Rightarrow> en_limiter e
                           | None \<Rightarrow> lim_new L (fs_rps fs) (fs_burst fs)))"
  "fs_peers (snd (fs_allow L fs ip now)) ip = Some \<lparr>
     en_limiter = snd (lim_allow L now (case fs_peers fs ip of Some e \<Rightarrow> en_limiter e
                           | None \<Rightarrow> lim_new L (fs_rps fs) (fs_burst fs))),
     en_lastSeen = now\<rparr>"
  by (auto simp: fs_allow_def fs_limiter_def Let_def split: option.splits prod.splits)

lemma fs_allow_frame [go_frame]:
  "x \<noteq> ip \<Longrightarrow> fs_peers (snd (fs_allow L fs ip now)) x = fs_peers fs x"
  "fs_rps (snd (fs_allow L fs ip now)) = fs_rps fs"
  "fs_burst (snd (fs_allow L fs ip now)) = fs_burst fs"
  by (auto simp: fs_allow_def fs_limiter_def Let_def split: prod.splits)

lemma fs_cleanup_peer:
  "fs_peers (fs_cleanup fs now) ip =
     (case fs_peers fs ip of None \<Rightarrow> None
      | Some e \<Rightarrow> if en_lastSeen e < now - idle_ns then None else Some e)"
  by (simp add: fs_cleanup_def Let_def)

lemma fs_cleanup_frame [go_frame]:
  "fs_rps (fs_cleanup fs now) = fs_rps fs" "fs_burst (fs_cleanup fs now) = fs_burst fs"
  by (simp_all add: fs_cleanup_def Let_def)

text \<open>The life of a shield: arrivals and ticks of the cleanup goroutine, each at its time.\<close>

datatype shield_op = Arrival string int | Cleanup int

fun run_shield :: "'l limiter_ops \<Rightarrow> 'l flux_shield \<Rightarrow> shield_op list \<Rightarrow> (string \<times> bool) list \<times> 'l flux_shield" where
  "run_shield L fs [] = ([], fs)"
| "run_shield L fs (Arrival ip now # ops) =
     (let (ok, fs1) = fs_allow L fs ip now; (ds, fs2) = run_shield L fs1 ops in ((ip, ok) # ds, fs2))"
| "run_shield L fs (Cleanup now # ops) = run_shield L (fs_cleanup fs now) ops"

fun concerns :: "string \<Rightarrow> shield_op \<Rightarrow> bool" where
  "concerns ip (Arrival x now) = (x = ip)"
| "concerns ip (Cleanup now) = True"

text \<open>Two shields that agree on \<open>ip\<close>, with the same configuration.\<close>

definition agree_on :: "string \<Rightarrow> 'l flux_shield \<Rightarrow> 'l flux_shield \<Rightarrow> bool" where
  "agree_on ip f g \<longleftrightarrow> fs_rps f = fs_rps g \<and> fs_burst f = fs_burst g \<and> fs_peers f ip = fs_peers g ip"

lemma agree_on_same:
  assumes "agree_on ip f g"
  shows "fst (fs_allow L f ip now) = fst (fs_allow L g ip now)"
    and "agree_on ip (snd (fs_allow L f ip now)) (snd (fs_allow L g ip now))"
    and "agree_on ip (fs_cleanup f now) (fs_cleanup g now)"
  using assms
  by (auto simp: agree_on_def fs_allow_peer fs_allow_frame fs_cleanup_peer fs_cleanup_frame split: option.split)

lemma agree_on_other:
  "agree_on ip f g \<Longrightarrow> x \<noteq> ip \<Longrightarrow> agree_on ip (snd (fs_allow L f x now)) g"
  by (auto simp: agree_on_def fs_allow_frame)

lemma run_shield_isolated:
  assumes "agree_on ip f g"
  shows "filter (\<lambda>d. fst d = ip) (fst (run_shield L f ops)) =
    fst (run_shield L g (filter (concerns ip) ops))"
  using assms
proof (induction ops arbitrary: f g)
  case (Cons op ops)
  show ?case
  proof (cases op)
    case (Arrival x now)
    show ?thesis
    proof (cases "x = ip")
      case True
      with agree_on_same(1,2)[OF Cons.prems, of L now] Cons.IH[of "snd (fs_allow L f ip now)" "snd (fs_allow L g ip now)"]
      show ?thesis by (auto simp: Arrival split: prod.splits)
    next
      case False
      with Cons.IH[OF agree_on_other[OF Cons.prems False, of L now]]
      show ?thesis by (auto simp: Arrival split: prod.splits)
    qed
  next
    case (Cleanup now)
    with Cons.IH[OF agree_on_same(3)[OF Cons.prems]] show ?thesis by simp
  qed
qed simp

section \<open>The middleware\<close>

lemma fs_Middleware_reject:
  assumes "\<not> fst (fs_allow L fs (extractIP r) now)"
  shows "fs_Middleware L now next r (s, fs) =
    ([W_Header ''Retry-After'' ''1''] @ http_error ''Too Many Requests'' 429, Returned,
     (s, snd (fs_allow L fs (extractIP r) now)))"
  using assms by (auto simp: fs_Middleware_def Let_def split: prod.splits)

lemma fs_Middleware_pass:
  assumes "fst (fs_allow L fs (extractIP r) now)" "next r s = (calls, res, s')"
  shows "fs_Middleware L now next r (s, fs) =
    (calls, res, (s', snd (fs_allow L fs (extractIP r) now)))"
  using assms by (auto simp: fs_Middleware_def Let_def split: prod.splits)

section \<open>Eviction\<close>

text \<open>After a tick every remaining peer was seen within the last minute.\<close>

lemma fs_cleanup_recent:
  "fs_peers (fs_cleanup fs now) ip = Some e \<Longrightarrow> now - idle_ns \<le> en_lastSeen e"
  by (auto simp: fs_cleanup_peer split: option.splits if_splits)

text \<open>An evicted client is a new client: its next request meets a full bucket.\<close>

lemma fs_evicted_fresh:
  assumes "fs_peers fs ip = Some e" "en_lastSeen e < now - idle_ns"
  shows "fst (fs_allow L (fs_cleanup fs now) ip t) = fst (lim_allow L t (lim_new L (fs_rps fs) (fs_burst fs)))"
  using assms by (simp add: fs_allow_peer fs_cleanup_peer fs_cleanup_frame)

end
