(* ===== verification/Go_Json.thy ===== *)
theory Go_Json
  imports Go_Strings
begin

text \<open>
  What the program uses of \<open>encoding/json\<close>: strings, integers, booleans and objects with fixed keys,
  as \<open>Marshal\<close> and \<open>Encoder.Encode\<close> write them with their default settings. Strings are bytes; UTF-8
  sequences pass through, bytes that are none become \<open>\ufffd\<close>, and the characters HTML and
  JavaScript treat specially are escaped. The lemmas: no control character ever comes out, and an ASCII
  string is read back by \<open>unquote\<close>, which is the inverse on the escapes the encoder writes.
\<close>

section \<open>Strings\<close>

definition newline :: string where
  "newline = [CHR 0x0A]"

abbreviation byte :: "char \<Rightarrow> nat" where
  "byte c \<equiv> of_char c"

abbreviation (input) backslash :: char where
  "backslash \<equiv> CHR 0x5C"

abbreviation (input) quote :: char where
  "quote \<equiv> CHR 0x22"

definition hex_digit :: "nat \<Rightarrow> char" where
  "hex_digit n = ''0123456789abcdef'' ! n"

definition hex_val :: "char \<Rightarrow> nat" where
  "hex_val c = (if byte c < 97 then byte c - 48 else byte c - 87)"

definition short_escape :: "char \<Rightarrow> char option" where
  "short_escape c =
     (if byte c = 8 then Some (CHR ''b'') else if byte c = 12 then Some (CHR ''f'')
      else if byte c = 10 then Some (CHR ''n'') else if byte c = 13 then Some (CHR ''r'')
      else if byte c = 9 then Some (CHR ''t'') else None)"

definition escape :: "char \<Rightarrow> string" where
  "escape c =
     (if c = quote \<or> c = backslash then [backslash, c]
      else (case short_escape c of
              Some e \<Rightarrow> [backslash, e]
            | None \<Rightarrow>
                if byte c < 32 \<or> c = CHR ''<'' \<or> c = CHR ''>'' \<or> c = CHR ''&''
                then [backslash, CHR ''u'', CHR ''0'', CHR ''0'', hex_digit (byte c div 16), hex_digit (byte c mod 16)]
                else [c]))"

lemma escape_cases:
  obtains (special) "c = quote \<or> c = backslash" "escape c = [backslash, c]"
  | (short) e where "c \<noteq> quote" "c \<noteq> backslash" "short_escape c = Some e" "escape c = [backslash, e]"
  | (hex) "escape c = [backslash, CHR ''u'', CHR ''0'', CHR ''0'', hex_digit (byte c div 16), hex_digit (byte c mod 16)]"
  | (plain) "c \<noteq> quote" "c \<noteq> backslash" "32 \<le> byte c" "escape c = [c]"
proof -
  consider "c = quote \<or> c = backslash" | e where "c \<noteq> quote" "c \<noteq> backslash" "short_escape c = Some e"
    | "c \<noteq> quote" "c \<noteq> backslash" "short_escape c = None"
    by (cases "short_escape c") auto
  then show thesis
  proof cases
    case 3
    show thesis
    proof (cases "byte c < 32 \<or> c = CHR ''<'' \<or> c = CHR ''>'' \<or> c = CHR ''&''")
      case True
      with 3 have "escape c = [backslash, CHR ''u'', CHR ''0'', CHR ''0'', hex_digit (byte c div 16), hex_digit (byte c mod 16)]"
        by (simp only: escape_def) simp
      then show thesis by (rule hex)
    next
      case False
      with 3 show thesis by (intro plain) (auto simp: escape_def)
    qed
  qed (use special short in \<open>auto simp: escape_def\<close>)
qed

text \<open>The length of the UTF-8 sequence a string starts with, 0 when it starts with none.\<close>

definition continues :: "nat \<Rightarrow> bool" where
  "continues b \<longleftrightarrow> 128 \<le> b \<and> b \<le> 191"

fun utf8_width :: "nat list \<Rightarrow> nat" where
  "utf8_width (a # b # c # d # bs) =
     (if 194 \<le> a \<and> a \<le> 223 \<and> continues b then 2
      else if 224 \<le> a \<and> a \<le> 239 \<and> continues b \<and> (a = 224 \<longrightarrow> 160 \<le> b) \<and> (a = 237 \<longrightarrow> b \<le> 159) \<and> continues c then 3
      else if 240 \<le> a \<and> a \<le> 244 \<and> continues b \<and> (a = 240 \<longrightarrow> 144 \<le> b) \<and> (a = 244 \<longrightarrow> b \<le> 143) \<and> continues c \<and> continues d
      then 4 else 0)"
| "utf8_width [a, b, c] =
     (if 194 \<le> a \<and> a \<le> 223 \<and> continues b then 2
      else if 224 \<le> a \<and> a \<le> 239 \<and> continues b \<and> (a = 224 \<longrightarrow> 160 \<le> b) \<and> (a = 237 \<longrightarrow> b \<le> 159) \<and> continues c then 3
      else 0)"
| "utf8_width [a, b] = (if 194 \<le> a \<and> a \<le> 223 \<and> continues b then 2 else 0)"
| "utf8_width bs = 0"

definition line_separator :: "string \<Rightarrow> char option" where
  "line_separator s =
     (if take 3 (map byte s) = [226, 128, 168] then Some (CHR ''8'')
      else if take 3 (map byte s) = [226, 128, 169] then Some (CHR ''9'')
      else None)"

lemma utf8_width_le: "utf8_width bs \<le> length bs"
  by (cases bs rule: utf8_width.cases) auto

function json_body :: "string \<Rightarrow> string" where
  "json_body [] = []"
| "json_body (c # cs) =
     (if byte c < 128 then escape c @ json_body cs
      else
        let w = utf8_width (map byte (c # cs))
        in if w = 0 then [backslash] @ ''ufffd'' @ json_body cs
           else (case line_separator (c # cs) of
                   Some d \<Rightarrow> [backslash] @ ''u202'' @ [d] @ json_body (drop 3 (c # cs))
                 | None \<Rightarrow> take w (c # cs) @ json_body (drop w (c # cs))))"
  by pat_completeness auto
termination by (relation "measure length") auto

declare json_body.simps(2) [simp del]

definition json_string :: "string \<Rightarrow> string" where
  "json_string s = quote # json_body s @ [quote]"

section \<open>No control characters\<close>

definition printable :: "string \<Rightarrow> bool" where
  "printable s \<longleftrightarrow> (\<forall>c\<in>set s. 32 \<le> byte c)"

lemma printable_simps [simp]:
  "printable []" "printable (c # s) \<longleftrightarrow> 32 \<le> byte c \<and> printable s"
  "printable (s @ t) \<longleftrightarrow> printable s \<and> printable t"
  by (auto simp: printable_def)

lemma printable_sub: "printable s \<Longrightarrow> set t \<subseteq> set s \<Longrightarrow> printable t"
  by (auto simp: printable_def)

lemma hex_digit_facts: "n < 16 \<Longrightarrow> hex_val (hex_digit n) = n \<and> 32 \<le> byte (hex_digit n)"
proof -
  assume n: "n < 16"
  have "list_all (\<lambda>n. hex_val (hex_digit n) = n \<and> 32 \<le> byte (hex_digit n)) [0..<16]" by code_simp
  with n show ?thesis by (simp add: list_all_iff)
qed

lemma byte_less: "byte c < 256"
  using nat_of_char_less_256[of c] by simp

lemma escape_printable: "printable (escape c)"
proof (cases c rule: escape_cases)
  case (short e)
  then show ?thesis by (auto simp: short_escape_def split: if_splits)
next
  case hex
  have "byte c div 16 < 16" using byte_less[of c] by (simp add: less_mult_imp_div_less)
  from hex_digit_facts[OF this] hex_digit_facts[of "byte c mod 16"]
  have "32 \<le> byte (hex_digit (byte c div 16))" "32 \<le> byte (hex_digit (byte c mod 16))" by simp_all
  with hex show ?thesis by (simp del: of_char_eq_iff)
qed auto

lemma utf8_high: "b \<in> set (take (utf8_width bs) bs) \<Longrightarrow> 128 \<le> b"
  by (cases bs rule: utf8_width.cases) (auto simp: continues_def split: if_splits)

lemma json_body_printable: "printable (json_body s)"
proof (induction s rule: json_body.induct)
  case (2 c cs)
  let ?w = "utf8_width (map byte (c # cs))"
  have "printable (take ?w (c # cs))"
  proof -
    have "set (map byte (take ?w (c # cs))) = set (take ?w (map byte (c # cs)))" by (simp only: take_map)
    then have "\<forall>x\<in>set (take ?w (c # cs)). 128 \<le> byte x" using utf8_high by (auto simp del: take_Cons_numeral)
    then show ?thesis by (force simp: printable_def)
  qed
  moreover have "line_separator (c # cs) = Some d \<Longrightarrow> 32 \<le> byte d" for d
    by (auto simp: line_separator_def split: if_splits)
  ultimately show ?case
    using 2 by (auto simp: json_body.simps(2)[of c cs] escape_printable Let_def split: option.split)
qed simp

lemma json_string_printable: "printable (json_string s)"
  by (simp add: json_string_def json_body_printable)

section \<open>Reading a string back\<close>

text \<open>The opening quote is consumed already; what follows the closing one is returned.\<close>

fun unquote :: "string \<Rightarrow> (string \<times> string) option" where
  "unquote [] = None"
| "unquote (c # cs) =
     (if c = quote then Some ([], cs)
      else if c \<noteq> backslash then map_option (apfst ((#) c)) (unquote cs)
      else (case cs of
              e # r \<Rightarrow>
                if e = CHR ''u'' then
                  (case r of
                     h1 # h2 # h3 # h4 # t \<Rightarrow> map_option (apfst ((#) (char_of (16 * hex_val h3 + hex_val h4)))) (unquote t)
                   | _ \<Rightarrow> None)
                else map_option (apfst ((#)
                  (if e = CHR ''b'' then char_of (8::nat) else if e = CHR ''f'' then char_of (12::nat)
                   else if e = CHR ''n'' then char_of (10::nat) else if e = CHR ''r'' then char_of (13::nat)
                   else if e = CHR ''t'' then char_of (9::nat) else e))) (unquote r)
            | [] \<Rightarrow> None))"

definition ascii :: "string \<Rightarrow> bool" where
  "ascii s \<longleftrightarrow> list_all (\<lambda>c. byte c < 128) s"

lemma ascii_simps [simp]: "ascii []" "ascii (c # s) \<longleftrightarrow> byte c < 128 \<and> ascii s"
  by (simp_all add: ascii_def)

lemma hex_byte: "char_of (16 * hex_val (hex_digit (byte c div 16)) + hex_val (hex_digit (byte c mod 16))) = c"
proof -
  have "byte c div 16 < 16" using byte_less[of c] by (simp add: less_mult_imp_div_less)
  then have "16 * hex_val (hex_digit (byte c div 16)) + hex_val (hex_digit (byte c mod 16)) = byte c"
    using hex_digit_facts[of "byte c div 16"] hex_digit_facts[of "byte c mod 16"] by simp
  then show ?thesis by (simp only: char_of_char)
qed

lemma char_of_byte: "byte c = n \<Longrightarrow> char_of n = c"
  using char_of_char[of c] by blast

lemma unquote_escape: "unquote (escape c @ t) = map_option (apfst ((#) c)) (unquote t)"
proof (cases c rule: escape_cases)
  case (short e)
  then show ?thesis by (auto simp: short_escape_def dest!: char_of_byte split: if_splits)
next
  case hex
  then show ?thesis by (simp only: append_Cons append_Nil) (simp add: hex_byte)
qed auto

lemma unquote_body: "ascii s \<Longrightarrow> unquote (json_body s @ quote # t) = Some (s, t)"
proof (induction s)
  case (Cons c s)
  then show ?case by (simp add: json_body.simps(2) unquote_escape del: unquote.simps(2))
qed simp

text \<open>Two strings written one after something and before anything are told apart.\<close>

lemma json_string_inj:
  assumes "ascii s" "ascii t" "json_string s @ u = json_string t @ v"
  shows "s = t \<and> u = v"
proof -
  have "unquote (json_body s @ quote # u) = unquote (json_body t @ quote # v)"
    using assms(3) by (simp add: json_string_def)
  then show ?thesis by (simp only: unquote_body[OF assms(1)] unquote_body[OF assms(2)] option.inject prod.inject)
qed

section \<open>Integers\<close>

definition digits_val :: "string \<Rightarrow> nat" where
  "digits_val = foldl (\<lambda>n c. 10 * n + (byte c - 48)) 0"

lemma digits_val_nat_digits: "digits_val (nat_digits n) = n"
proof (induction n rule: nat_digits.induct)
  case (1 n)
  then show ?case
    by (cases "n < 10") (simp_all add: nat_digits.simps[of n] digits_val_def digit_char_def)
qed

lemma digit_char_between: "d < 10 \<Longrightarrow> 48 \<le> byte (digit_char d) \<and> byte (digit_char d) < 58"
  by (simp add: digit_char_def)

lemma nat_digits_digits: "c \<in> set (nat_digits n) \<Longrightarrow> 48 \<le> byte c \<and> byte c < 58"
proof (induction n rule: nat_digits.induct)
  case (1 n)
  show ?case
  proof (cases "n < 10")
    case True
    with 1(2) show ?thesis by (simp add: nat_digits.simps[of n] digit_char_between)
  next
    case False
    with 1 show ?thesis using digit_char_between[of "n mod 10"] by (auto simp: nat_digits.simps[of n])
  qed
qed

lemma Itoa_printable: "printable (Itoa i)"
  using nat_digits_digits by (force simp: Itoa_def printable_def)

lemma Itoa_no_comma: "c \<in> set (Itoa i) \<Longrightarrow> c \<noteq> CHR '','' \<and> c \<noteq> CHR ''}''"
  using nat_digits_digits by (force simp: Itoa_def split: if_splits)

lemma Itoa_inj: "Itoa i = Itoa j \<Longrightarrow> i = j"
proof -
  assume eq: "Itoa i = Itoa j"
  have hd: "hd (nat_digits n) \<noteq> CHR ''-''" "nat_digits n \<noteq> []" for n
    using nat_digits_no_sign nat_digits_nonempty by simp_all
  have "i < 0 \<longleftrightarrow> j < 0" using eq hd by (metis Itoa_def list.sel(1))
  with eq have "digits_val (nat_digits (nat \<bar>i\<bar>)) = digits_val (nat_digits (nat \<bar>j\<bar>))"
    by (auto simp: Itoa_def split: if_splits)
  with \<open>i < 0 \<longleftrightarrow> j < 0\<close> show "i = j" by (auto simp: digits_val_nat_digits)
qed

lemma Itoa_comma_inj:
  assumes "Itoa i @ CHR '','' # u = Itoa j @ CHR '','' # v"
  shows "i = j \<and> u = v"
proof -
  let ?p = "\<lambda>c. c \<noteq> CHR '',''"
  have "takeWhile ?p (Itoa k @ CHR '','' # w) = Itoa k \<and> dropWhile ?p (Itoa k @ CHR '','' # w) = CHR '','' # w" for k w
    using Itoa_no_comma by (simp add: takeWhile_append2 dropWhile_append2)
  with assms have "Itoa i = Itoa j \<and> CHR '','' # u = CHR '','' # v" by metis
  with Itoa_inj show ?thesis by simp
qed

section \<open>Objects\<close>

fun json_members :: "(string \<times> string) list \<Rightarrow> string" where
  "json_members [] = []"
| "json_members [(k, v)] = quote # k @ [quote] @ '':'' @ v"
| "json_members ((k, v) # ms) = quote # k @ [quote] @ '':'' @ v @ '','' @ json_members ms"

text \<open>The keys are constants of the program that need no escapes.\<close>

definition json_object :: "(string \<times> string) list \<Rightarrow> string" where
  "json_object ms = ''{'' @ json_members ms @ ''}''"

definition json_bool :: "bool \<Rightarrow> string" where
  "json_bool b = (if b then ''true'' else ''false'')"

fun json_elements :: "string list \<Rightarrow> string" where
  "json_elements [] = []"
| "json_elements [v] = v"
| "json_elements (v # vs) = v @ '','' @ json_elements vs"

definition json_array :: "string list \<Rightarrow> string" where
  "json_array vs = ''['' @ json_elements vs @ '']''"

lemma json_members_printable:
  "(\<And>k v. (k, v) \<in> set ms \<Longrightarrow> printable k \<and> printable v) \<Longrightarrow> printable (json_members ms)"
  by (induction ms rule: json_members.induct) auto

lemma json_object_printable:
  "(\<And>k v. (k, v) \<in> set ms \<Longrightarrow> printable k \<and> printable v) \<Longrightarrow> printable (json_object ms)"
  using json_members_printable by (simp add: json_object_def)

text \<open>An object as the sequence of its constant and variable parts, which are told apart one by one.\<close>

definition key_part :: "string \<Rightarrow> string" where
  "key_part k = CHR 0x22 # k @ [CHR 0x22, CHR '':'']"

lemma keyed_string:
  "ascii s \<Longrightarrow> ascii t \<Longrightarrow> k @ json_string s @ u = k @ json_string t @ v \<Longrightarrow> s = t \<and> u = v"
  using json_string_inj by blast

lemma keyed_int:
  "k @ Itoa i @ CHR '','' # u = k @ Itoa j @ CHR '','' # v \<Longrightarrow> i = j \<and> u = v"
  using Itoa_comma_inj by blast

lemma keyed_bool:
  "k @ json_bool a @ CHR ''}'' # u = k @ json_bool b @ CHR ''}'' # v \<Longrightarrow> a = b \<and> u = v"
  by (auto simp: json_bool_def split: if_splits)

text \<open>Arrays of values that can be told apart.\<close>

lemma json_elements_inj:
  assumes "\<And>x y u v. P x \<Longrightarrow> P y \<Longrightarrow> enc x @ u = enc y @ v \<Longrightarrow> x = y \<and> u = v"
    "\<And>x. enc x \<noteq> [] \<and> hd (enc x) \<noteq> CHR '']''"
    "list_all P xs" "list_all P ys"
    "json_elements (map enc xs) @ CHR '']'' # u = json_elements (map enc ys) @ CHR '']'' # v"
  shows "xs = ys \<and> u = v"
proof -
  have starts: "json_elements (map enc (x # zs)) @ w \<noteq> CHR '']'' # t" for x zs w t
    using assms(2)[of x] by (cases zs; cases "enc x") auto
  have split: "json_elements (map enc (x # xs)) @ w = enc x @ (if xs = [] then w else CHR '','' # json_elements (map enc xs) @ w)"
    for x xs w by (cases xs) simp_all
  show ?thesis
    using assms(3-5)
  proof (induction xs arbitrary: ys)
    case Nil
    then show ?case using starts by (cases ys) (auto dest: sym)
  next
    case (Cons x xs)
    obtain y zs where ys: "ys = y # zs" using Cons.prems(3) starts by (cases ys) auto
    have "x = y \<and> (if xs = [] then CHR '']'' # u else CHR '','' # json_elements (map enc xs) @ CHR '']'' # u) =
        (if zs = [] then CHR '']'' # v else CHR '','' # json_elements (map enc zs) @ CHR '']'' # v)"
      using Cons.prems(3) unfolding ys split by (intro assms(1)) (use Cons.prems(1,2) ys in simp_all)
    then show ?case
      using Cons.IH[of zs] Cons.prems(1,2) by (cases "xs = []"; cases "zs = []") (simp_all add: ys)
  qed
qed

end
