(* ===== verification/Stellar_Log.thy ===== *)
theory Stellar_Log
  imports Status_Writer Go_Json
begin

text \<open>
  \<^verbatim>\<open>internal/logger/stellar.go\<close>: one log entry per request. The clock readings are
  arguments: the formatted time stamp and the elapsed nanoseconds. The log is the list of entries
  written so far; \<open>log_file\<close> is what they are as bytes, one line of JSON each.
\<close>

record log_entry =
  le_Time :: string
  le_Gate :: string
  le_Method :: string
  le_Path :: string
  le_Status :: int
  le_LatencyMs :: int
  le_ClientIP :: string

definition clientIP :: "request \<Rightarrow> string" where
  "clientIP r =
     (let xff = header_get (rq_header r) XFF
      in if xff \<noteq> '''' then
           (case index_byte (CHR '','') xff of
              Some idx \<Rightarrow> TrimSpace (take idx xff)
            | None \<Rightarrow> TrimSpace xff)
         else
           let a = rq_remote r
           in (case last_index_byte (CHR '':'') a of
                 Some idx \<Rightarrow> take idx a
               | None \<Rightarrow> a))"

text \<open>\<open>Duration.Milliseconds\<close> of an elapsed time, which is not negative.\<close>

definition milliseconds :: "int \<Rightarrow> int" where
  "milliseconds ns = ns div 1000000"

text \<open>A panic of the wrapped handler unwinds past the lines that write the entry.\<close>

definition sl_Middleware ::
  "string \<Rightarrow> string \<Rightarrow> int \<Rightarrow> 's handler \<Rightarrow> ('s \<times> log_entry list) handler" where
  "sl_Middleware gate stamp elapsed next r st =
     (let (s, log) = st;
          (calls, res, s') = next r s;
          (sw, out) = sl_run sw_New calls
      in case res of
           Panicked \<Rightarrow> (out, Panicked, (s', log))
         | Returned \<Rightarrow>
             (out, Returned,
              (s', log @ [\<lparr>le_Time = stamp, le_Gate = gate, le_Method = rq_method r,
                            le_Path = rq_path r, le_Status = sw_status sw,
                            le_LatencyMs = milliseconds elapsed, le_ClientIP = clientIP r\<rparr>])))"

section \<open>The client address\<close>

lemma takeWhile_take_index:
  "index_byte c s = Some i \<Longrightarrow> takeWhile (\<lambda>x. x \<noteq> c) s = take i s"
  by (induction s arbitrary: i) auto

lemma clientIP_xff:
  assumes "header_get (rq_header r) XFF \<noteq> ''''"
  shows "clientIP r = TrimSpace (takeWhile (\<lambda>x. x \<noteq> CHR '','') (header_get (rq_header r) XFF))"
proof (cases "index_byte (CHR '','') (header_get (rq_header r) XFF)")
  case None
  then have "takeWhile (\<lambda>x. x \<noteq> CHR '','') (header_get (rq_header r) XFF) = header_get (rq_header r) XFF"
    by (auto simp: index_byte_None takeWhile_eq_all_conv)
  moreover have "clientIP r = TrimSpace (header_get (rq_header r) XFF)"
    using None assms by (simp add: clientIP_def Let_def)
  ultimately show ?thesis by (simp only:)
next
  case (Some i)
  with assms show ?thesis by (simp add: clientIP_def Let_def takeWhile_take_index)
qed

lemma clientIP_remote:
  assumes "header_get (rq_header r) XFF = ''''" "rq_remote r = host @ CHR '':'' # port" "CHR '':'' \<notin> set port"
  shows "clientIP r = host"
  using assms last_index_byte_append[OF assms(3), of host] by (simp add: clientIP_def Let_def)

section \<open>The log\<close>

lemma sl_Middleware_returned:
  assumes "next r s = (calls, Returned, s')"
  shows "sl_Middleware gate stamp elapsed next r (s, log) =
    (snd (sw_run sw_New calls), Returned,
     (s', log @ [\<lparr>le_Time = stamp, le_Gate = gate, le_Method = rq_method r, le_Path = rq_path r,
                   le_Status = sw_status (fst (sw_run sw_New calls)),
                   le_LatencyMs = milliseconds elapsed, le_ClientIP = clientIP r\<rparr>]))"
  using assms by (simp add: sl_Middleware_def sl_run_eq Let_def split: prod.splits)

lemma sl_Middleware_panicked:
  assumes "next r s = (calls, Panicked, s')"
  shows "sl_Middleware gate stamp elapsed next r (s, log) = (snd (sw_run sw_New calls), Panicked, (s', log))"
  using assms by (simp add: sl_Middleware_def sl_run_eq Let_def split: prod.splits)

section \<open>The file\<close>

definition log_line :: "log_entry \<Rightarrow> string" where
  "log_line e =
     json_object
       [(''time'', json_string (le_Time e)), (''gate'', json_string (le_Gate e)),
        (''method'', json_string (le_Method e)), (''path'', json_string (le_Path e)),
        (''status'', Itoa (le_Status e)), (''latency_ms'', Itoa (le_LatencyMs e)),
        (''client_ip'', json_string (le_ClientIP e))] @ newline"

definition log_file :: "log_entry list \<Rightarrow> string" where
  "log_file es = concat (map log_line es)"

definition ascii_entry :: "log_entry \<Rightarrow> bool" where
  "ascii_entry e \<longleftrightarrow> ascii (le_Time e) \<and> ascii (le_Gate e) \<and> ascii (le_Method e) \<and> ascii (le_Path e) \<and>
     ascii (le_ClientIP e)"

lemma printable_no_newline: "printable s \<Longrightarrow> count_list s (CHR 0x0A) = 0"
  by (induction s) auto

lemma log_line_newlines: "count_list (log_line e) (CHR 0x0A) = 1"
proof -
  let ?ms = "[(''time'', json_string (le_Time e)), (''gate'', json_string (le_Gate e)),
        (''method'', json_string (le_Method e)), (''path'', json_string (le_Path e)),
        (''status'', Itoa (le_Status e)), (''latency_ms'', Itoa (le_LatencyMs e)),
        (''client_ip'', json_string (le_ClientIP e))]"
  have "printable (json_object ?ms)"
    by (rule json_object_printable) (auto simp: json_string_printable Itoa_printable)
  from printable_no_newline[OF this] show ?thesis
    unfolding log_line_def newline_def by (simp only: count_list_append) simp
qed

lemma log_file_newlines: "count_list (log_file es) (CHR 0x0A) = length es"
  by (induction es) (simp_all add: log_file_def log_line_newlines)

text \<open>The line as the sequence of its constant and variable parts.\<close>

lemma log_line_parts:
  "log_line e @ u =
     (CHR ''{'' # key_part ''time'') @ json_string (le_Time e) @ (CHR '','' # key_part ''gate'') @ json_string (le_Gate e) @
     (CHR '','' # key_part ''method'') @ json_string (le_Method e) @ (CHR '','' # key_part ''path'') @ json_string (le_Path e) @
     (CHR '','' # key_part ''status'') @ Itoa (le_Status e) @ CHR '','' # key_part ''latency_ms'' @ Itoa (le_LatencyMs e) @
     CHR '','' # key_part ''client_ip'' @ json_string (le_ClientIP e) @ (CHR ''}'' # newline) @ u"
  by (simp add: log_line_def json_object_def key_part_def)

lemma log_line_inj:
  assumes "ascii_entry e" "ascii_entry e'" "log_line e @ u = log_line e' @ v"
  shows "e = e' \<and> u = v"
proof -
  have a: "ascii (f e)" "ascii (f e')" if "f \<in> {le_Time, le_Gate, le_Method, le_Path, le_ClientIP}" for f
    using assms(1,2) that by (auto simp: ascii_entry_def)
  note eq = assms(3)[unfolded log_line_parts]
  note time = keyed_string[OF a[of le_Time] eq]
  note gate = keyed_string[OF a[of le_Gate] time[THEN conjunct2]]
  note verb = keyed_string[OF a[of le_Method] gate[THEN conjunct2]]
  note path = keyed_string[OF a[of le_Path] verb[THEN conjunct2]]
  note status = keyed_int[OF path[THEN conjunct2]]
  note latency = keyed_int[OF status[THEN conjunct2]]
  note client = keyed_string[OF a[of le_ClientIP] latency[THEN conjunct2]]
  show ?thesis
    using time gate verb path status latency client by (intro conjI log_entry.equality) simp_all
qed

lemma log_file_inj:
  assumes "list_all ascii_entry es" "list_all ascii_entry es'" "log_file es = log_file es'"
  shows "es = es'"
  using assms
proof (induction es arbitrary: es')
  case Nil
  have "log_line e \<noteq> []" for e by (simp add: log_line_def newline_def)
  with Nil show ?case by (cases es') (simp_all add: log_file_def)
next
  case (Cons e es)
  have "log_line e \<noteq> []" for e by (simp add: log_line_def newline_def)
  then obtain e' rest where es': "es' = e' # rest" using Cons.prems(3) by (cases es') (auto simp: log_file_def)
  with Cons.prems have "e = e' \<and> log_file es = log_file rest"
    by (intro log_line_inj) (simp_all add: log_file_def)
  with Cons.IH[of rest] Cons.prems es' show ?case by simp
qed

end
