(* ===== verification/Pulse_Scan.thy ===== *)
theory Pulse_Scan
  imports Balancer_Iface
begin

text \<open>
  \<^verbatim>\<open>internal/health/pulsescan.go\<close>: the health checker of one gate. It owns the watched
  list and the health map and pushes live lists into the gate's balancer, a shared object that is
  passed in and returned. Only \<open>SetBackends\<close> of the balancer is used, so the operations take
  it as a parameter and their lemmas live in the locale of the balancer interface.

  The network is an environment: a \<open>probe\<close> says how each call of one ping ended. One
  iteration of the loop in \<open>check\<close> is a definition of its own (\<open>check_visit\<close>), since
  a hot reload can run between two iterations.
\<close>

record probe =
  http_get :: "int option" \<comment> \<open>status code of \<open>GET http://addr/\<close>, \<open>None\<close> on error\<close>
  tcp_dial :: bool
  udp_dial :: bool
  udp_write :: bool
  udp_read :: bool

type_synonym scan_event = "string \<times> string \<times> string"

record pulse_scan =
  ps_name :: string
  ps_all :: "addr list"
  ps_protocol :: string
  ps_healthy :: "addr \<rightharpoonup> bool"
  ps_interval :: int64
  ps_eventFunc :: bool \<comment> \<open>\<open>SetEventFunc\<close> was called\<close>

definition ps_New :: "string \<Rightarrow> addr list \<Rightarrow> string \<Rightarrow> int64 \<Rightarrow> pulse_scan" where
  "ps_New name addresses protocol interval =
     \<lparr>ps_name = name, ps_all = addresses, ps_protocol = protocol,
      ps_healthy = upd_all (\<lambda>a. a) (\<lambda>_. True) Map.empty addresses,
      ps_interval = interval, ps_eventFunc = False\<rparr>"

definition ps_SetEventFunc :: "pulse_scan \<Rightarrow> pulse_scan" where
  "ps_SetEventFunc ps = ps\<lparr>ps_eventFunc := True\<rparr>"

definition ps_Healthy :: "pulse_scan \<Rightarrow> addr \<Rightarrow> bool" where
  "ps_Healthy ps address = (case ps_healthy ps address of None \<Rightarrow> False | Some v \<Rightarrow> v)"

section \<open>Probes\<close>

definition pingHTTP :: "probe \<Rightarrow> bool" where
  "pingHTTP p = (case http_get p of None \<Rightarrow> False | Some status \<Rightarrow> status < 500)"

definition pingTCP :: "probe \<Rightarrow> bool" where
  "pingTCP p = tcp_dial p"

definition pingUDP :: "probe \<Rightarrow> bool" where
  "pingUDP p =
     (if \<not> udp_dial p then False
      else if \<not> udp_write p then False
      else udp_read p)"

definition ps_ping :: "pulse_scan \<Rightarrow> probe \<Rightarrow> bool" where
  "ps_ping ps p =
     (if ps_protocol ps = ''tcp'' then pingTCP p
      else if ps_protocol ps = ''udp'' then pingUDP p
      else pingHTTP p)"

section \<open>One round of checks\<close>

text \<open>The local variables of a running \<open>check\<close>: what is left of \<open>range ps.all\<close>, \<open>live\<close>, \<open>changed\<close>.\<close>

record check_state =
  cs_todo :: "addr list"
  cs_live :: "addr list"
  cs_changed :: bool

definition check_start :: "pulse_scan \<Rightarrow> check_state" where
  "check_start ps = \<lparr>cs_todo = ps_all ps, cs_live = [], cs_changed = False\<rparr>"

definition check_visit ::
  "probe \<Rightarrow> pulse_scan \<Rightarrow> check_state \<Rightarrow> pulse_scan \<times> check_state \<times> scan_event list" where
  "check_visit p ps cs =
     (case cs_todo cs of
        [] \<Rightarrow> (ps, cs, [])
      | a # rest \<Rightarrow>
          let wasHealthy = ps_Healthy ps a;
              isHealthy = ps_ping ps p;
              ps' = ps\<lparr>ps_healthy := (ps_healthy ps)(a \<mapsto> isHealthy)\<rparr>;
              live = (if isHealthy then cs_live cs @ [a] else cs_live cs);
              changed = (if wasHealthy \<noteq> isHealthy then True else cs_changed cs);
              events = (if wasHealthy \<noteq> isHealthy \<and> ps_eventFunc ps
                        then [(ps_name ps, (if isHealthy then ''backend_up'' else ''backend_down''), a)]
                        else [])
          in (ps', \<lparr>cs_todo = rest, cs_live = live, cs_changed = changed\<rparr>, events))"

definition check_finish :: "('b \<Rightarrow> addr list \<Rightarrow> 'b) \<Rightarrow> 'b \<Rightarrow> check_state \<Rightarrow> 'b" where
  "check_finish push b cs = (if cs_changed cs then push b (cs_live cs) else b)"

text \<open>The loop, undisturbed: visit \<open>n\<close> addresses, the \<open>i\<close>-th with outcome \<open>env i\<close>.\<close>

fun check_loop ::
  "nat \<Rightarrow> (nat \<Rightarrow> probe) \<Rightarrow> nat \<Rightarrow> pulse_scan \<Rightarrow> check_state \<Rightarrow> pulse_scan \<times> check_state \<times> scan_event list" where
  "check_loop 0 env i ps cs = (ps, cs, [])"
| "check_loop (Suc n) env i ps cs =
     (let (ps1, cs1, es1) = check_visit (env i) ps cs;
          (ps2, cs2, es2) = check_loop n env (Suc i) ps1 cs1
      in (ps2, cs2, es1 @ es2))"

definition ps_check ::
  "('b \<Rightarrow> addr list \<Rightarrow> 'b) \<Rightarrow> (nat \<Rightarrow> probe) \<Rightarrow> pulse_scan \<Rightarrow> 'b \<Rightarrow> pulse_scan \<times> 'b \<times> scan_event list" where
  "ps_check push env ps b =
     (let (ps', cs, es) = check_loop (length (ps_all ps)) env 0 ps (check_start ps)
      in (ps', check_finish push b cs, es))"

section \<open>Hot reload\<close>

definition drop_removed :: "addr list \<Rightarrow> addr list \<Rightarrow> (addr \<rightharpoonup> bool) \<Rightarrow> (addr \<rightharpoonup> bool)" where
  "drop_removed old new h = foldl (\<lambda>h a. if a \<in> set new then h else h(a := None)) h old"

definition add_new :: "addr list \<Rightarrow> (addr \<rightharpoonup> bool) \<Rightarrow> (addr \<rightharpoonup> bool)" where
  "add_new new h = foldl (\<lambda>h a. case h a of None \<Rightarrow> h(a \<mapsto> True) | Some _ \<Rightarrow> h) h new"

definition ps_SetAll ::
  "('b \<Rightarrow> addr list \<Rightarrow> 'b) \<Rightarrow> pulse_scan \<Rightarrow> 'b \<Rightarrow> addr list \<Rightarrow> pulse_scan \<times> 'b" where
  "ps_SetAll push ps b addresses =
     (let ps1 = ps\<lparr>ps_healthy := add_new addresses (drop_removed (ps_all ps) addresses (ps_healthy ps)),
                   ps_all := addresses\<rparr>;
          live = filter (ps_Healthy ps1) addresses
      in (ps1, push b live))"

section \<open>Facts on one round\<close>

lemma drop_removed_eq: "drop_removed old new h a = (if a \<in> set old - set new then None else h a)"
  unfolding drop_removed_def by (induction old arbitrary: h) auto

lemma add_new_eq:
  "add_new new h a = (case h a of None \<Rightarrow> if a \<in> set new then Some True else None | Some v \<Rightarrow> Some v)"
  unfolding add_new_def by (induction new arbitrary: h) (auto split: option.splits)

lemma check_visit_Cons:
  assumes "cs_todo cs = a # rest" "check_visit p ps cs = (ps', cs', es)"
  shows "ps_healthy ps' = (ps_healthy ps)(a \<mapsto> ps_ping ps p)"
    "cs_todo cs' = rest"
    "cs_live cs' = cs_live cs @ (if ps_ping ps p then [a] else [])"
    "cs_changed cs' \<longleftrightarrow> cs_changed cs \<or> ps_Healthy ps a \<noteq> ps_ping ps p"
    "ps_all ps' = ps_all ps" "ps_protocol ps' = ps_protocol ps" "ps_name ps' = ps_name ps"
    "ps_eventFunc ps' = ps_eventFunc ps"
    "es = (if ps_eventFunc ps \<and> ps_Healthy ps a \<noteq> ps_Healthy ps' a
           then [(ps_name ps, (if ps_Healthy ps' a then ''backend_up'' else ''backend_down''), a)] else [])"
    "ps_Healthy ps' a = ps_ping ps p" "x \<noteq> a \<Longrightarrow> ps_Healthy ps' x = ps_Healthy ps x"
  using assms by (auto simp: check_visit_def Let_def ps_Healthy_def split: if_splits)

text \<open>
  What a round has established when the addresses \<open>visited\<close> are behind it and it started
  from \<open>ps0\<close>.
\<close>

definition round_inv :: "pulse_scan \<Rightarrow> addr list \<Rightarrow> pulse_scan \<Rightarrow> check_state \<Rightarrow> bool" where
  "round_inv ps0 visited ps cs \<longleftrightarrow>
     distinct (visited @ cs_todo cs) \<and>
     cs_live cs = filter (ps_Healthy ps) visited \<and>
     (cs_changed cs \<longleftrightarrow> (\<exists>a \<in> set visited. ps_Healthy ps a \<noteq> ps_Healthy ps0 a)) \<and>
     (\<forall>a \<in> set (cs_todo cs). ps_Healthy ps a = ps_Healthy ps0 a) \<and>
     dom (ps_healthy ps) = dom (ps_healthy ps0) \<union> set visited \<and>
     ps_all ps = ps_all ps0 \<and> ps_protocol ps = ps_protocol ps0 \<and> ps_name ps = ps_name ps0 \<and>
     ps_eventFunc ps = ps_eventFunc ps0"

lemma round_inv_start: "distinct (ps_all ps) \<Longrightarrow> round_inv ps [] ps (check_start ps)"
  by (simp add: round_inv_def check_start_def)

lemma round_inv_visit:
  assumes "round_inv ps0 visited ps cs" "cs_todo cs = a # rest" "check_visit p ps cs = (ps', cs', es)"
  shows "round_inv ps0 (visited @ [a]) ps' cs'"
proof -
  note v = check_visit_Cons[OF assms(2,3)]
  have a: "a \<notin> set visited" "a \<notin> set rest"
    using assms(1,2) by (auto simp: round_inv_def)
  have same: "ps_Healthy ps' x = ps_Healthy ps x" if "x \<in> set visited \<union> set rest" for x
    using that a by (intro v(11)) auto
  then have "filter (ps_Healthy ps') visited = filter (ps_Healthy ps) visited"
    by (intro filter_cong) auto
  moreover have "(\<exists>x \<in> set visited. ps_Healthy ps' x \<noteq> ps_Healthy ps0 x) \<longleftrightarrow>
      (\<exists>x \<in> set visited. ps_Healthy ps x \<noteq> ps_Healthy ps0 x)"
    using same by (intro bex_cong) auto
  moreover have "\<forall>x \<in> set rest. ps_Healthy ps' x = ps_Healthy ps x" using same by auto
  moreover have "dom (ps_healthy ps') = insert a (dom (ps_healthy ps))" by (simp add: v(1))
  ultimately show ?thesis
    using assms(1,2) a unfolding round_inv_def by (auto simp: v(2-8,10))
qed

lemma round_inv_loop:
  assumes "round_inv ps0 visited ps cs" "length (cs_todo cs) = n"
    "check_loop n env i ps cs = (ps', cs', es)"
  shows "round_inv ps0 (visited @ cs_todo cs) ps' cs' \<and> cs_todo cs' = [] \<and>
    (\<forall>k < n. ps_Healthy ps' (cs_todo cs ! k) = ps_ping ps0 (env (i + k))) \<and>
    es = (if ps_eventFunc ps0
          then map (\<lambda>a. (ps_name ps0, (if ps_Healthy ps' a then ''backend_up'' else ''backend_down''), a))
                 (filter (\<lambda>a. ps_Healthy ps' a \<noteq> ps_Healthy ps0 a) (cs_todo cs))
          else []) \<and>
    (\<forall>x. x \<notin> set (cs_todo cs) \<longrightarrow> ps_Healthy ps' x = ps_Healthy ps x)"
  using assms
proof (induction n arbitrary: visited i ps cs es)
  case 0
  then show ?case by auto
next
  case (Suc n)
  then obtain a rest where todo: "cs_todo cs = a # rest" by (cases "cs_todo cs") auto
  obtain ps1 cs1 es1 where visit: "check_visit (env i) ps cs = (ps1, cs1, es1)" by (metis prod_cases3)
  obtain es2 where loop: "check_loop n env (Suc i) ps1 cs1 = (ps', cs', es2)" "es = es1 @ es2"
    using Suc.prems(3) visit by (auto split: prod.splits)
  note v = check_visit_Cons[OF todo visit]
  have inv0: "ps_Healthy ps a = ps_Healthy ps0 a" "a \<notin> set rest" "ps_ping ps p = ps_ping ps0 p"
      "ps_eventFunc ps = ps_eventFunc ps0" "ps_name ps = ps_name ps0" for p
    using Suc.prems(1) todo by (auto simp: round_inv_def ps_ping_def)
  have IH: "round_inv ps0 ((visited @ [a]) @ cs_todo cs1) ps' cs' \<and> cs_todo cs' = [] \<and>
    (\<forall>k < n. ps_Healthy ps' (cs_todo cs1 ! k) = ps_ping ps0 (env (Suc i + k))) \<and>
    es2 = (if ps_eventFunc ps0
          then map (\<lambda>a. (ps_name ps0, (if ps_Healthy ps' a then ''backend_up'' else ''backend_down''), a))
                 (filter (\<lambda>a. ps_Healthy ps' a \<noteq> ps_Healthy ps0 a) (cs_todo cs1))
          else []) \<and>
    (\<forall>x. x \<notin> set (cs_todo cs1) \<longrightarrow> ps_Healthy ps' x = ps_Healthy ps1 x)"
    using Suc.prems(2) todo v(2)
    by (intro Suc.IH[OF round_inv_visit[OF Suc.prems(1) todo visit] _ loop(1)]) simp
  have last: "ps_Healthy ps' a = ps_ping ps0 (env i)" using IH inv0 v(2,10) by simp
  have "ps_Healthy ps' (cs_todo cs ! k) = ps_ping ps0 (env (i + k))" if "k < Suc n" for k
    using that IH last v(2) todo by (cases k) auto
  moreover have "x \<notin> set (cs_todo cs) \<longrightarrow> ps_Healthy ps' x = ps_Healthy ps x" for x
    using IH v(2,11) todo by auto
  ultimately show ?case using IH loop(2) v(2,9,10) inv0 last todo by auto
qed

section \<open>The balancer follows the health map\<close>

text \<open>
  The invariant between the two shared objects: no address is watched twice, the health map
  speaks of exactly the watched addresses, and the balancer serves exactly the healthy ones, in
  the watched order. \<open>addrs_of\<close> reads the balancer's live list.
\<close>

definition scan_sync :: "('b \<Rightarrow> addr list) \<Rightarrow> pulse_scan \<Rightarrow> 'b \<Rightarrow> bool" where
  "scan_sync addrs_of ps b \<longleftrightarrow>
     distinct (ps_all ps) \<and> dom (ps_healthy ps) = set (ps_all ps) \<and>
     addrs_of b = filter (ps_Healthy ps) (ps_all ps)"

lemma ps_New_Healthy: "ps_Healthy (ps_New name as protocol interval) a \<longleftrightarrow> a \<in> set as"
  by (simp add: ps_Healthy_def ps_New_def upd_all_const_key)

lemma ps_New_sync: "distinct as \<Longrightarrow> addrs_of b = as \<Longrightarrow> scan_sync addrs_of (ps_New name as protocol interval) b"
  by (auto simp: scan_sync_def ps_New_def upd_all_dom upd_all_const_key ps_Healthy_def filter_id_conv)

lemma ps_SetAll_Healthy:
  assumes "dom (ps_healthy ps) = set (ps_all ps)" "ps_SetAll push ps b new = (ps', b')"
  shows "ps_Healthy ps' a \<longleftrightarrow> a \<in> set new \<and> (a \<in> set (ps_all ps) \<longrightarrow> ps_Healthy ps a)"
    and "dom (ps_healthy ps') = set new" "ps_all ps' = new"
    "b' = push b (filter (ps_Healthy ps') new)"
    "ps_name ps' = ps_name ps" "ps_protocol ps' = ps_protocol ps" "ps_eventFunc ps' = ps_eventFunc ps"
proof -
  have h: "ps_healthy ps' = add_new new (drop_removed (ps_all ps) new (ps_healthy ps))"
    using assms(2) by (auto simp: ps_SetAll_def Let_def)
  have none: "ps_healthy ps x = None \<longleftrightarrow> x \<notin> set (ps_all ps)" for x
    using assms(1) by (metis domIff)
  show "ps_Healthy ps' a \<longleftrightarrow> a \<in> set new \<and> (a \<in> set (ps_all ps) \<longrightarrow> ps_Healthy ps a)"
    using none[of a] by (auto simp: ps_Healthy_def h add_new_eq drop_removed_eq split: option.splits)
  show "dom (ps_healthy ps') = set new"
    using none by (auto simp: dom_def h add_new_eq drop_removed_eq split: option.splits if_splits)
  show "ps_all ps' = new" "b' = push b (filter (ps_Healthy ps') new)"
    "ps_name ps' = ps_name ps" "ps_protocol ps' = ps_protocol ps" "ps_eventFunc ps' = ps_eventFunc ps"
    using assms(2) by (auto simp: ps_SetAll_def Let_def)
qed

lemma ps_check_round:
  assumes "distinct (ps_all ps)" "ps_check push env ps b = (ps', b', es)"
  shows "\<forall>k < length (ps_all ps). ps_Healthy ps' (ps_all ps ! k) = ps_ping ps (env k)"
    "ps_all ps' = ps_all ps"
    "dom (ps_healthy ps') = dom (ps_healthy ps) \<union> set (ps_all ps)"
    "b' = (if \<exists>a \<in> set (ps_all ps). ps_Healthy ps' a \<noteq> ps_Healthy ps a
           then push b (filter (ps_Healthy ps') (ps_all ps)) else b)"
    "es = (if ps_eventFunc ps
          then map (\<lambda>a. (ps_name ps, (if ps_Healthy ps' a then ''backend_up'' else ''backend_down''), a))
                 (filter (\<lambda>a. ps_Healthy ps' a \<noteq> ps_Healthy ps a) (ps_all ps))
          else [])"
    "ps_name ps' = ps_name ps" "ps_protocol ps' = ps_protocol ps" "ps_eventFunc ps' = ps_eventFunc ps"
proof -
  obtain cs where loop: "check_loop (length (ps_all ps)) env 0 ps (check_start ps) = (ps', cs, es)"
    and b': "b' = check_finish push b cs"
    using assms(2) by (auto simp: ps_check_def split: prod.splits)
  have todo: "cs_todo (check_start ps) = ps_all ps" by (simp add: check_start_def)
  note r = round_inv_loop[OF round_inv_start[OF assms(1)] _ loop, unfolded todo, simplified]
  then have inv: "round_inv ps (ps_all ps) ps' cs" by simp
  show "\<forall>k < length (ps_all ps). ps_Healthy ps' (ps_all ps ! k) = ps_ping ps (env k)"
    using r by blast
  show "es = (if ps_eventFunc ps
          then map (\<lambda>a. (ps_name ps, (if ps_Healthy ps' a then ''backend_up'' else ''backend_down''), a))
                 (filter (\<lambda>a. ps_Healthy ps' a \<noteq> ps_Healthy ps a) (ps_all ps))
          else [])"
    using r by blast
  show "b' = (if \<exists>a \<in> set (ps_all ps). ps_Healthy ps' a \<noteq> ps_Healthy ps a
           then push b (filter (ps_Healthy ps') (ps_all ps)) else b)"
    using inv by (auto simp: b' check_finish_def round_inv_def)
  show "ps_all ps' = ps_all ps" "dom (ps_healthy ps') = dom (ps_healthy ps) \<union> set (ps_all ps)"
    "ps_name ps' = ps_name ps" "ps_protocol ps' = ps_protocol ps" "ps_eventFunc ps' = ps_eventFunc ps"
    using inv by (auto simp: round_inv_def)
qed

text \<open>The life of a checker: rounds and reloads, one after the other.\<close>

datatype scan_op = ScanRound "nat \<Rightarrow> probe" | Reload "addr list"

fun run_scan ::
  "('b \<Rightarrow> addr list \<Rightarrow> 'b) \<Rightarrow> scan_op list \<Rightarrow> pulse_scan \<Rightarrow> 'b \<Rightarrow> pulse_scan \<times> 'b" where
  "run_scan push [] ps b = (ps, b)"
| "run_scan push (ScanRound env # ops) ps b =
     (let (ps', b', es) = ps_check push env ps b in run_scan push ops ps' b')"
| "run_scan push (Reload as # ops) ps b =
     (let (ps', b') = ps_SetAll push ps b as in run_scan push ops ps' b')"

definition distinct_reloads :: "scan_op list \<Rightarrow> bool" where
  "distinct_reloads ops \<longleftrightarrow> (\<forall>as. Reload as \<in> set ops \<longrightarrow> distinct as)"

context balancer
begin

lemma check_sync:
  assumes "scan_sync addrs ps b" "ps_check set_backends env ps b = (ps', b', es)"
  shows "scan_sync addrs ps' b'"
proof -
  have d: "distinct (ps_all ps)" using assms(1) by (simp add: scan_sync_def)
  note r = ps_check_round[OF d assms(2)]
  show ?thesis
  proof (cases "\<exists>a \<in> set (ps_all ps). ps_Healthy ps' a \<noteq> ps_Healthy ps a")
    case True
    then show ?thesis using assms(1) r(2,3,4) by (simp add: scan_sync_def)
  next
    case False
    then have "filter (ps_Healthy ps) (ps_all ps) = filter (ps_Healthy ps') (ps_all ps)"
      by (intro filter_cong) auto
    with False show ?thesis using assms(1) r(2,3,4) by (simp add: scan_sync_def)
  qed
qed

lemma SetAll_sync:
  assumes "scan_sync addrs ps b" "distinct new" "ps_SetAll set_backends ps b new = (ps', b')"
  shows "scan_sync addrs ps' b'"
  using assms ps_SetAll_Healthy[OF _ assms(3)] by (simp add: scan_sync_def)

lemma run_scan_sync:
  assumes "scan_sync addrs ps b" "distinct_reloads ops" "run_scan set_backends ops ps b = (ps', b')"
  shows "scan_sync addrs ps' b'"
  using assms
proof (induction ops arbitrary: ps b)
  case (Cons x ops)
  have ops: "distinct_reloads ops" using Cons.prems(2) by (simp add: distinct_reloads_def)
  show ?case
  proof (cases x)
    case (ScanRound env)
    obtain ps1 b1 es where c: "ps_check set_backends env ps b = (ps1, b1, es)" by (metis prod_cases3)
    with Cons.prems(3) ScanRound have "run_scan set_backends ops ps1 b1 = (ps', b')" by simp
    with Cons.IH[OF check_sync[OF Cons.prems(1) c] ops] show ?thesis .
  next
    case (Reload as)
    obtain ps1 b1 where c: "ps_SetAll set_backends ps b as = (ps1, b1)" by fastforce
    have "distinct as" using Cons.prems(2) Reload by (simp add: distinct_reloads_def)
    from SetAll_sync[OF Cons.prems(1) this c] Cons.prems(3) Reload c Cons.IH[OF _ ops]
    show ?thesis by simp
  qed
qed simp

text \<open>What the proxy then gets from \<open>Next\<close>: a watched, healthy address, or nothing at all.\<close>

lemma sync_next:
  assumes "scan_sync addrs ps b" "fst (bnext b) \<noteq> ''''"
  shows "fst (bnext b) \<in> set (ps_all ps)" "ps_Healthy ps (fst (bnext b))"
proof -
  have "addrs b \<noteq> []" using assms(2) next_empty[of b] by auto
  from next_live[OF this] assms(1)
  show "fst (bnext b) \<in> set (ps_all ps)" "ps_Healthy ps (fst (bnext b))"
    by (auto simp: scan_sync_def)
qed

lemma sync_next_none:
  assumes "scan_sync addrs ps b" "'''' \<notin> set (ps_all ps)"
  shows "fst (bnext b) = '''' \<longleftrightarrow> (\<forall>a \<in> set (ps_all ps). \<not> ps_Healthy ps a)"
proof -
  have "'''' \<notin> set (addrs b)" using assms by (simp add: scan_sync_def)
  from next_none_iff[OF this] assms(1) show ?thesis
    by (auto simp: scan_sync_def filter_empty_conv)
qed

text \<open>Right after a round: the address handed out answered the probe of that round.\<close>

lemma check_next_answered:
  assumes "scan_sync addrs ps b" "ps_check set_backends env ps b = (ps', b', es)" "fst (bnext b') \<noteq> ''''"
  shows "\<exists>k < length (ps_all ps). ps_all ps ! k = fst (bnext b') \<and> ps_ping ps (env k)"
proof -
  have d: "distinct (ps_all ps)" using assms(1) by (simp add: scan_sync_def)
  note r = ps_check_round[OF d assms(2)]
  from sync_next[OF check_sync[OF assms(1,2)] assms(3)] r(1,2) show ?thesis
    by (auto simp: in_set_conv_nth)
qed

end

end
