(* ===== verification/Aggregator.thy ===== *)
theory Aggregator
  imports Collector
begin

text \<open>
  \<^verbatim>\<open>internal/oracle/aggregator.go\<close>: rates from cumulative totals. \<open>delta\<close> is the
  subtraction with the guard against counter resets, \<open>buildSnapshot\<close> the whole pass over the
  gates.
\<close>

record gate_snapshot =
  gs_Gate :: string
  gs_ReqPerSec :: f64
  gs_ErrorRate :: f64
  gs_P95Ms :: f64
  gs_ReqDelta :: f64
  gs_ErrDelta :: f64
  gs_P95Delta :: f64
  gs_rawReqTotal :: int64
  gs_rawErrTotal :: int64

definition prev_map :: "gate_snapshot list \<Rightarrow> (string \<rightharpoonup> gate_snapshot)" where
  "prev_map prev = upd_all gs_Gate (\<lambda>p. p) Map.empty prev"

definition guard_interval :: "f64 \<Rightarrow> f64" where
  "guard_interval secs = (if secs \<le> 0 then Fin 1 else secs)"

definition delta :: "int64 \<Rightarrow> int64 option \<Rightarrow> int64" where
  "delta cur prev =
     (case prev of
        None \<Rightarrow> cur
      | Some p \<Rightarrow> if sint (cur - p) < 0 then 0 else cur - p)"

definition build_one :: "(string \<rightharpoonup> gate_snapshot) \<Rightarrow> f64 \<Rightarrow> metrics_snapshot \<Rightarrow> gate_snapshot" where
  "build_one pm secs cur =
     (let p = pm (ms_Gate cur);
          deltaReq = delta (ms_ReqTotal cur) (map_option gs_rawReqTotal p);
          deltaErr = delta (ms_ErrTotal cur) (map_option gs_rawErrTotal p);
          rps = f64_of_int (sint deltaReq) / secs;
          rate = (if 0 < sint deltaReq then f64_of_int (sint deltaErr) / f64_of_int (sint deltaReq)
                  else Fin 0)
      in \<lparr>gs_Gate = ms_Gate cur, gs_ReqPerSec = rps, gs_ErrorRate = rate, gs_P95Ms = ms_P95Ms cur,
          gs_ReqDelta = (case p of None \<Rightarrow> 0 | Some q \<Rightarrow> rps - gs_ReqPerSec q),
          gs_ErrDelta = (case p of None \<Rightarrow> 0 | Some q \<Rightarrow> rate - gs_ErrorRate q),
          gs_P95Delta = (case p of None \<Rightarrow> 0 | Some q \<Rightarrow> ms_P95Ms cur - gs_P95Ms q),
          gs_rawReqTotal = ms_ReqTotal cur, gs_rawErrTotal = ms_ErrTotal cur\<rparr>)"

definition buildSnapshot :: "metrics_snapshot list \<Rightarrow> gate_snapshot list \<Rightarrow> f64 \<Rightarrow> gate_snapshot list" where
  "buildSnapshot current prev intervalSecs =
     map (build_one (prev_map prev) (guard_interval intervalSecs)) current"

definition BuildSnapshot ::
  "family list option \<Rightarrow> string list \<Rightarrow> gate_snapshot list \<Rightarrow> f64 \<Rightarrow> gate_snapshot list" where
  "BuildSnapshot gather gateNames prev secs = buildSnapshot (Snapshots gather gateNames) prev secs"

section \<open>The deltas\<close>

lemma delta_nonneg: "0 \<le> sint cur \<Longrightarrow> 0 \<le> sint (delta cur prev)"
  by (simp add: delta_def split: option.split)

lemma delta_first: "delta cur None = cur"
  by (simp add: delta_def)

lemma delta_growth:
  assumes "0 \<le> sint p" "sint p \<le> sint cur"
  shows "sint (delta cur (Some p)) = sint cur - sint p"
proof -
  have "sint (cur - p) = sint cur - sint p"
    using assms sint64_range[of cur] by (intro sint64_diff) linarith+
  with assms show ?thesis by (simp add: delta_def)
qed

lemma delta_reset:
  assumes "0 \<le> sint cur" "sint cur < sint p"
  shows "delta cur (Some p) = 0"
proof -
  have "sint (cur - p) = sint cur - sint p"
    using assms sint64_range[of p] by (intro sint64_diff) linarith+
  with assms show ?thesis by (simp add: delta_def)
qed

text \<open>Over a series of growing totals the deltas add up to the last total: nothing is counted
  twice or lost.\<close>

fun deltas :: "int64 option \<Rightarrow> int64 list \<Rightarrow> int64 list" where
  "deltas prev [] = []"
| "deltas prev (t # ts) = delta t prev # deltas (Some t) ts"

fun growing :: "int \<Rightarrow> int64 list \<Rightarrow> bool" where
  "growing low [] = True"
| "growing low (t # ts) = (low \<le> sint t \<and> growing (sint t) ts)"

lemma deltas_sum_from:
  "growing (sint p) ts \<Longrightarrow> 0 \<le> sint p \<Longrightarrow>
   sum_list (map sint (deltas (Some p) ts)) = sint (last (p # ts)) - sint p"
proof (induction ts arbitrary: p)
  case (Cons t ts)
  then have "sint (delta t (Some p)) = sint t - sint p" by (intro delta_growth) auto
  with Cons.IH[of t] Cons.prems show ?case by simp
qed simp

lemma deltas_sum:
  assumes "growing 0 ts" "ts \<noteq> []"
  shows "sum_list (map sint (deltas None ts)) = sint (last ts)"
  using assms deltas_sum_from[of "hd ts" "tl ts"] by (cases ts) (auto simp: delta_first)

section \<open>Rates\<close>

lemma f64_of_int_range:
  assumes "\<bar>i\<bar> \<le> 2 ^ 63"
  shows "f64_of_int i = Fin (rnd (of_int i))"
proof -
  have "\<bar>of_int i :: rat\<bar> \<le> of_int (2 ^ 63)" using assms by (metis of_int_abs of_int_le_iff)
  also have "\<dots> \<le> 2 ^ 1023" by simp
  finally show ?thesis by (simp add: f64_of_int_def fl_Fin)
qed

lemma ratio_bounds:
  assumes "0 \<le> a" "a \<le> 2 ^ 63" "0 < b" "b \<le> 2 ^ 63"
  shows "\<exists>r. fdiv (f64_of_int a) (f64_of_int b) = Fin r \<and> 0 \<le> r \<and> (a \<le> b \<longrightarrow> r \<le> 1)"
proof -
  define x where "x = rnd (of_int a)"
  define y where "y = rnd (of_int b)"
  have x: "f64_of_int a = Fin x" and y: "f64_of_int b = Fin y"
    using assms by (auto simp: x_def y_def intro: f64_of_int_range)
  have "1 \<le> (of_int b :: rat)" using assms(3) by linarith
  from rnd_mono[OF this] have y1: "1 \<le> y" by (simp add: y_def)
  have x0: "0 \<le> x" unfolding x_def by (rule rnd_nonneg) (use assms(1) in simp)
  have "(of_int a :: rat) \<le> of_int (2 ^ 63)" using assms(2) by (simp only: of_int_le_iff)
  from rnd_mono[OF this] have "x \<le> rnd (2 ^ 63)" by (simp add: x_def)
  also have "rnd (2 ^ 63) = 2 ^ 63"
  proof (rule rnd_representable)
    have "(2::rat) ^ 63 = of_int 1 * 2 powi 63" by simp
    then show "representable (2 ^ 63)" unfolding representable_def by (intro exI[of _ 1] exI[of _ 63]) simp
  qed
  finally have x63: "x \<le> 2 ^ 63" .
  have "x / y \<le> x" using x0 y1 by (simp add: divide_le_eq mult_le_cancel_left1)
  then have "x / y \<le> 2 ^ 1023" using x63 by (rule order_trans[OF order_trans]) simp
  then have f: "fdiv (Fin x) (Fin y) = Fin (rnd (x / y))"
    using y1 x0 by (simp add: fl_Fin)
  have "0 \<le> rnd (x / y)" using x0 y1 by (intro rnd_nonneg) simp
  moreover have "rnd (x / y) \<le> 1" if "a \<le> b"
  proof -
    have "x \<le> y" unfolding x_def y_def using that by (intro rnd_mono) simp
    then have "x / y \<le> 1" using y1 by (simp add: divide_le_eq)
    from rnd_mono[OF this] show ?thesis by simp
  qed
  ultimately show ?thesis using f x y by simp
qed

lemma error_rate_bounds:
  assumes "0 \<le> sint (ms_ReqTotal cur)" "0 \<le> sint (ms_ErrTotal cur)"
  shows "\<exists>r. gs_ErrorRate (build_one pm secs cur) = Fin r \<and> 0 \<le> r \<and>
    (sint (delta (ms_ErrTotal cur) (map_option gs_rawErrTotal (pm (ms_Gate cur)))) \<le>
     sint (delta (ms_ReqTotal cur) (map_option gs_rawReqTotal (pm (ms_Gate cur)))) \<longrightarrow> r \<le> 1)"
proof -
  define e where "e = sint (delta (ms_ErrTotal cur) (map_option gs_rawErrTotal (pm (ms_Gate cur))))"
  define r where "r = sint (delta (ms_ReqTotal cur) (map_option gs_rawReqTotal (pm (ms_Gate cur))))"
  have range: "0 \<le> e" "e \<le> 2 ^ 63" "r \<le> 2 ^ 63"
    using delta_nonneg[OF assms(2)] sint64_range(2) by (auto simp: e_def r_def intro: less_imp_le)
  have "gs_ErrorRate (build_one pm secs cur) = (if 0 < r then fdiv (f64_of_int e) (f64_of_int r) else Fin 0)"
    by (simp add: build_one_def Let_def e_def r_def)
  with ratio_bounds[OF range(1,2) _ range(3)] show ?thesis
    unfolding e_def[symmetric] r_def[symmetric] by (cases "0 < r") auto
qed

lemma prev_map_distinct:
  "distinct (map gs_Gate prev) \<Longrightarrow> p \<in> set prev \<Longrightarrow> prev_map prev (gs_Gate p) = Some p"
  unfolding prev_map_def by (rule upd_all_distinct)

lemma prev_map_absent: "g \<notin> gs_Gate ` set prev \<Longrightarrow> prev_map prev g = None"
  by (simp add: prev_map_def upd_all_notin)

text \<open>Two rounds: the second reads the totals of the first.\<close>

lemma second_round_totals:
  assumes "distinct (map ms_Gate first)" "c \<in> set first" "ms_Gate cur = ms_Gate c"
  shows "map_option gs_rawReqTotal (prev_map (buildSnapshot first prev secs) (ms_Gate cur)) = Some (ms_ReqTotal c)"
    and "map_option gs_rawErrTotal (prev_map (buildSnapshot first prev secs) (ms_Gate cur)) = Some (ms_ErrTotal c)"
proof -
  let ?f = "build_one (prev_map prev) (guard_interval secs)"
  have g: "gs_Gate (?f x) = ms_Gate x" for x by (simp add: build_one_def Let_def)
  have "prev_map (map ?f first) (gs_Gate (?f c)) = Some (?f c)"
    using assms(1,2) by (intro prev_map_distinct) (simp_all add: o_def g)
  then have p: "prev_map (buildSnapshot first prev secs) (ms_Gate cur) = Some (?f c)"
    using assms(3) by (simp add: buildSnapshot_def g)
  show "map_option gs_rawReqTotal (prev_map (buildSnapshot first prev secs) (ms_Gate cur)) = Some (ms_ReqTotal c)"
    "map_option gs_rawErrTotal (prev_map (buildSnapshot first prev secs) (ms_Gate cur)) = Some (ms_ErrTotal c)"
    unfolding p by (simp_all add: build_one_def Let_def)
qed

end
