(* ===== verification/Config.thy ===== *)
theory Config
  imports Go_Strings Go_Float
begin

text \<open>
  \<^verbatim>\<open>internal/config\<close>: the configuration records, \<open>Load\<close> and the loop of \<open>Watch\<close>.
  Reading the file and the YAML decoder are parameters; \<open>os.ExpandEnv\<close> is standard library and
  written out.
\<close>

section \<open>config.go: the records\<close>

record mission_control_config =
  mc_Port :: int64
  mc_Secret :: string

record star_system =
  ss_Address :: string
  ss_Weight :: int64

record tls_config =
  tls_Mode :: string
  tls_Domain :: string
  tls_CertFile :: string
  tls_KeyFile :: string

record flux_shield_config =
  fc_RequestsPerSecond :: f64
  fc_Burst :: int64

record jump_gate =
  jg_Name :: string
  jg_Listen :: string
  jg_Protocol :: string
  jg_OrbitalRouter :: string
  jg_TLS :: tls_config
  jg_FluxShield :: flux_shield_config
  jg_StarSystems :: "star_system list"

record metrics_config =
  mcf_Enabled :: bool
  mcf_Port :: int64

record oracle_config =
  oc_Enabled :: bool
  oc_APIKey :: string
  oc_Model :: string
  oc_IntervalSeconds :: int64
  oc_ThreatDetection :: bool
  oc_ScalingAdvisor :: bool
  oc_ErrorRateThreshold :: f64
  oc_P95LatencyThreshold :: f64

record config =
  cf_MissionControl :: mission_control_config
  cf_JumpGates :: "jump_gate list"
  cf_Metrics :: metrics_config
  cf_Oracle :: oracle_config

section \<open>os.ExpandEnv\<close>

definition special_var :: "char \<Rightarrow> bool" where
  "special_var c \<longleftrightarrow> c \<in> set ''*#$@!?-0123456789''"

definition alpha_num :: "char \<Rightarrow> bool" where
  "alpha_num c \<longleftrightarrow> c \<in> set ''_0123456789abcdefghijklmnopqrstuvwxyzABCDEFGHIJKLMNOPQRSTUVWXYZ''"

text \<open>The name after a dollar and how many characters it takes.\<close>

definition braced :: "string \<Rightarrow> string \<times> nat" where
  "braced s =
     (let name = takeWhile (\<lambda>c. c \<noteq> CHR ''}'') s
      in if length name = length s then ('''', 1)
         else if name = '''' then ('''', 2)
         else (name, length name + 2))"

fun shell_name :: "string \<Rightarrow> string \<times> nat" where
  "shell_name [] = ('''', 0)"
| "shell_name (c # s) =
     (if c = CHR ''{'' then
        (if 2 \<le> length s \<and> special_var (s ! 0) \<and> s ! 1 = CHR ''}'' then ([s ! 0], 3) else braced s)
      else if special_var c then ([c], 1)
      else (let name = takeWhile alpha_num (c # s) in (name, length name)))"

function Expand :: "(string \<Rightarrow> string) \<Rightarrow> string \<Rightarrow> string" where
  "Expand env [] = []"
| "Expand env (c # s) =
     (if c = CHR ''$'' \<and> s \<noteq> [] then
        (let (name, w) = shell_name s
         in (if name = '''' then (if 0 < w then '''' else [c]) else env name) @ Expand env (drop w s))
      else c # Expand env s)"
  by pat_completeness auto
termination by (relation "measure (\<lambda>(env, s). length s)") auto

section \<open>Load\<close>

type_synonym 'e loader = "string \<Rightarrow> 'e + string"

definition Load :: "(string \<Rightarrow> string) \<Rightarrow> 'e loader \<Rightarrow> (string \<Rightarrow> 'e + config) \<Rightarrow> string \<Rightarrow> 'e + config" where
  "Load env readFile unmarshal path =
     (case readFile path of
        Inl e \<Rightarrow> Inl e
      | Inr data \<Rightarrow>
         (case unmarshal data of
            Inl e \<Rightarrow> Inl e
          | Inr cfg \<Rightarrow>
              Inr (cfg\<lparr>cf_Oracle := (cf_Oracle cfg)\<lparr>oc_APIKey := Expand env (oc_APIKey (cf_Oracle cfg))\<rparr>\<rparr>)))"

lemma Expand_plain: "CHR ''$'' \<notin> set s \<Longrightarrow> Expand env s = s"
  by (induction s) auto

lemma takeWhile_brace: "CHR ''}'' \<notin> set name \<Longrightarrow> takeWhile (\<lambda>c. c \<noteq> CHR ''}'') (name @ CHR ''}'' # rest) = name"
  by (induction name) auto

text \<open>\<open>${NAME}\<close> reads one variable and goes on after the brace.\<close>

lemma Expand_braced:
  assumes "name \<noteq> ''''" "CHR ''}'' \<notin> set name" "\<not> special_var (hd name)"
  shows "Expand env (''${'' @ name @ ''}'' @ rest) = env name @ Expand env rest"
proof -
  obtain c cs where n: "name = c # cs" using assms(1) by (cases name) auto
  have b: "shell_name (CHR ''{'' # name @ CHR ''}'' # rest) = (name, length name + 2)"
    using assms takeWhile_brace[OF assms(2), of rest] by (simp add: braced_def n Let_def)
  show ?thesis using assms(1) by (simp add: b del: shell_name.simps)
qed

text \<open>
  A template: literal text and references in both notations, and what each part stands for. A part is
  well formed when its notation reads back: no dollar in literal text, a name of letters, digits and
  underscores that ends where the next part begins, any name without a brace between braces.
\<close>

datatype piece = Lit string | Var string | Braced string

fun piece_text :: "piece \<Rightarrow> string" where
  "piece_text (Lit s) = s"
| "piece_text (Var n) = ''$'' @ n"
| "piece_text (Braced n) = ''${'' @ n @ ''}''"

fun piece_value :: "(string \<Rightarrow> string) \<Rightarrow> piece \<Rightarrow> string" where
  "piece_value env (Lit s) = s"
| "piece_value env (Var n) = env n"
| "piece_value env (Braced n) = env n"

definition ref_name :: "string \<Rightarrow> bool" where
  "ref_name n \<longleftrightarrow> n \<noteq> '''' \<and> \<not> special_var (hd n)"

fun template_ok :: "piece list \<Rightarrow> bool" where
  "template_ok [] \<longleftrightarrow> True"
| "template_ok (Lit s # ps) \<longleftrightarrow> CHR ''$'' \<notin> set s \<and> template_ok ps"
| "template_ok (Var n # ps) \<longleftrightarrow> ref_name n \<and> list_all alpha_num n \<and>
     (case concat (map piece_text ps) of [] \<Rightarrow> True | c # _ \<Rightarrow> \<not> alpha_num c) \<and> template_ok ps"
| "template_ok (Braced n # ps) \<longleftrightarrow> ref_name n \<and> CHR ''}'' \<notin> set n \<and> template_ok ps"

lemma Expand_literal: "CHR ''$'' \<notin> set s \<Longrightarrow> Expand env (s @ rest) = s @ Expand env rest"
  by (induction s) auto

lemma Expand_var:
  assumes "ref_name n" "list_all alpha_num n" "case rest of [] \<Rightarrow> True | c # _ \<Rightarrow> \<not> alpha_num c"
  shows "Expand env (''$'' @ n @ rest) = env n @ Expand env rest"
proof -
  obtain c cs where n: "n = c # cs" "\<not> special_var c" using assms(1) by (cases n) (auto simp: ref_name_def)
  have c: "alpha_num c" using assms(2) n(1) by simp
  then have "c \<noteq> CHR ''{''" by (auto simp: alpha_num_def)
  moreover have "takeWhile alpha_num (n @ rest) = n"
    using assms(2,3) by (cases rest) (simp_all add: takeWhile_append list_all_iff)
  ultimately have "shell_name (n @ rest) = (n, length n)" using n by (simp add: Let_def)
  then show ?thesis using n(1) by (simp del: shell_name.simps)
qed

lemma Expand_template:
  "template_ok ps \<Longrightarrow> Expand env (concat (map piece_text ps)) = concat (map (piece_value env) ps)"
proof (induction ps rule: template_ok.induct)
  case (2 s ps)
  then show ?case by (simp add: Expand_literal)
next
  case (3 n ps)
  then show ?case using Expand_var[of n "concat (map piece_text ps)" env] by simp
next
  case (4 n ps)
  then show ?case using Expand_braced[of n env "concat (map piece_text ps)"] by (simp add: ref_name_def)
qed simp

section \<open>watcher.go\<close>

text \<open>
  What the loop of \<open>Watch\<close> can receive: an event with the Write and Create bits, the closing of
  either channel, or an error. The file is read again at each event, so \<open>load\<close> takes the number
  of the event.
\<close>

datatype fs_event = FsEvent bool bool | FsError | EventsClosed | ErrorsClosed

fun watch_loop ::
  "(nat \<Rightarrow> 'e + config) \<Rightarrow> (config \<Rightarrow> 's \<Rightarrow> 's) \<Rightarrow> nat \<Rightarrow> fs_event list \<Rightarrow> 's \<Rightarrow> 's" where
  "watch_loop load onChange n [] s = s"
| "watch_loop load onChange n (FsEvent wr cr # evs) s =
     (if wr \<or> cr then
        (case load n of
           Inl e \<Rightarrow> watch_loop load onChange (Suc n) evs s
         | Inr cfg \<Rightarrow> watch_loop load onChange (Suc n) evs (onChange cfg s))
      else watch_loop load onChange (Suc n) evs s)"
| "watch_loop load onChange n (FsError # evs) s = watch_loop load onChange (Suc n) evs s"
| "watch_loop load onChange n (EventsClosed # evs) s = s"
| "watch_loop load onChange n (ErrorsClosed # evs) s = s"

text \<open>The configurations that are applied, in order: one per write or create whose load works.\<close>

fun loaded :: "(nat \<Rightarrow> 'e + config) \<Rightarrow> nat \<Rightarrow> fs_event list \<Rightarrow> config list" where
  "loaded load n [] = []"
| "loaded load n (ev # evs) =
     (case ev of
        FsEvent wr cr \<Rightarrow>
          (if wr \<or> cr then (case load n of Inl e \<Rightarrow> [] | Inr cfg \<Rightarrow> [cfg]) else []) @
            loaded load (Suc n) evs
      | FsError \<Rightarrow> loaded load (Suc n) evs
      | EventsClosed \<Rightarrow> []
      | ErrorsClosed \<Rightarrow> [])"

lemma watch_loop_loaded:
  "watch_loop load onChange n evs s = fold onChange (loaded load n evs) s"
  by (induction load onChange n evs s rule: watch_loop.induct) (auto split: sum.split)

end
