(* ===== verification/The_Oracle.thy ===== *)
theory The_Oracle
  imports Aggregator Store Config Go_Json
begin

text \<open>
  \<^verbatim>\<open>internal/oracle/oracle.go\<close>: when the Oracle asks Claude and what it does with the answer.
  The API client and the JSON decoder are parameters. Times are nanoseconds of the Unix clock;
  \<open>time.Since\<close> saturates at the largest \<open>Duration\<close>, and a zero \<open>time.Time\<close> is the year 1.
\<close>

section \<open>Times\<close>

definition zero_time :: int where
  "zero_time = - 62135596800 * 1000000000"

definition max_duration :: int where
  "max_duration = 2 ^ 63 - 1"

definition since :: "int \<Rightarrow> int \<Rightarrow> int" where
  "since now t = max (- (2 ^ 63)) (min max_duration (now - t))"

text \<open>\<open>time.Duration(n) * time.Second\<close> in 64 bits.\<close>

definition seconds :: "int64 \<Rightarrow> int64" where
  "seconds n = n * 1000000000"

section \<open>State\<close>

record oracle_state =
  or_cfg :: oracle_config
  or_gateNames :: "string list"
  or_lastSnaps :: "gate_snapshot list"
  or_lastCall :: int

record oracle_response =
  rs_Kind :: string
  rs_Level :: string
  rs_Gate :: string
  rs_Summary :: string
  rs_Reasoning :: string
  rs_Action :: string

definition newWithClient :: "oracle_config \<Rightarrow> string list \<Rightarrow> oracle_state" where
  "newWithClient cfg gateNames =
     (let cfg = (if oc_Model cfg = '''' then cfg\<lparr>oc_Model := ''claude-haiku-4-5-20251001''\<rparr> else cfg);
          cfg = (if oc_IntervalSeconds cfg = 0 then cfg\<lparr>oc_IntervalSeconds := 300\<rparr> else cfg)
      in \<lparr>or_cfg = cfg, or_gateNames = gateNames, or_lastSnaps = [], or_lastCall = zero_time\<rparr>)"

definition oracle_New :: "oracle_config \<Rightarrow> string list \<Rightarrow> oracle_state option" where
  "oracle_New cfg gateNames =
     (if \<not> oc_Enabled cfg \<or> oc_APIKey cfg = '''' then None else Some (newWithClient cfg gateNames))"

section \<open>The decision\<close>

definition breaches :: "oracle_config \<Rightarrow> gate_snapshot \<Rightarrow> bool" where
  "breaches cfg s \<longleftrightarrow>
     0 < oc_ErrorRateThreshold cfg \<and> oc_ErrorRateThreshold cfg < gs_ErrorRate s \<or>
     0 < oc_P95LatencyThreshold cfg \<and> oc_P95LatencyThreshold cfg < gs_P95Ms s"

definition interval_over :: "oracle_state \<Rightarrow> int \<Rightarrow> bool" where
  "interval_over ora now \<longleftrightarrow> sint (seconds (oc_IntervalSeconds (or_cfg ora))) \<le> since now (or_lastCall ora)"

fun any_breach :: "oracle_config \<Rightarrow> gate_snapshot list \<Rightarrow> bool" where
  "any_breach cfg [] = False"
| "any_breach cfg (s # ss) = (if breaches cfg s then True else any_breach cfg ss)"

definition shouldCall :: "oracle_state \<Rightarrow> int \<Rightarrow> gate_snapshot list \<Rightarrow> bool" where
  "shouldCall ora now snaps = (if interval_over ora now then True else any_breach (or_cfg ora) snaps)"

lemma any_breach_iff: "any_breach cfg ss \<longleftrightarrow> (\<exists>s\<in>set ss. breaches cfg s)"
  by (induction ss) auto

section \<open>The prompt\<close>

text \<open>\<open>fmt\<close>'s \<open>%n.pf\<close>: the exact value rounded half to even at \<open>p\<close> decimals, padded on the left.\<close>

definition pad_left :: "nat \<Rightarrow> string \<Rightarrow> string" where
  "pad_left n s = replicate (n - length s) (CHR '' '') @ s"

definition pad_right :: "nat \<Rightarrow> string \<Rightarrow> string" where
  "pad_right n s = s @ replicate (n - length s) (CHR '' '')"

definition fixed_digits :: "nat \<Rightarrow> int \<Rightarrow> string" where
  "fixed_digits p n =
     (let q = 10 ^ p; frac = Itoa (n mod q)
      in Itoa (n div q) @ ''.'' @ replicate (p - length frac) (CHR ''0'') @ frac)"

fun fmt_f :: "nat \<Rightarrow> f64 \<Rightarrow> string" where
  "fmt_f p (Fin x) =
     (if x < 0 then CHR ''-'' # fixed_digits p (round_half_even (- x * 10 ^ p))
      else fixed_digits p (round_half_even (x * 10 ^ p)))"
| "fmt_f p PInf = ''+Inf''"
| "fmt_f p NInf = ''-Inf''"
| "fmt_f p NaN = ''NaN''"

text \<open>Pieces of the system prompt: a long dash in UTF-8 and quotation marks.\<close>

definition em_dash :: string where
  "em_dash = [CHR 0xE2, CHR 0x80, CHR 0x94]"

definition quoted :: "string \<Rightarrow> string" where
  "quoted s = CHR 0x22 # s @ [CHR 0x22]"

definition prompt_row :: "gate_snapshot \<Rightarrow> string" where
  "prompt_row s =
     pad_right 20 (gs_Gate s) @ '' '' @ pad_left 10 (fmt_f 2 (gs_ReqPerSec s)) @ '' '' @
     pad_left 11 (fmt_f 1 (gs_ErrorRate s * Fin 100)) @ ''% '' @
     pad_left 10 (fmt_f 1 (gs_P95Ms s)) @ '' '' @ pad_left 10 (fmt_f 2 (gs_ReqDelta s)) @ '' '' @
     pad_left 10 (fmt_f 1 (gs_P95Delta s)) @ newline"

definition prompt_head :: string where
  "prompt_head =
     ''Current traffic snapshot:'' @ newline @ newline @
     pad_right 20 ''Gate'' @ '' '' @ pad_left 10 ''Req/s'' @ '' '' @ pad_left 12 ''ErrorRate%'' @ '' '' @
     pad_left 10 ''P95ms'' @ '' '' @ pad_left 10 ''ReqDelta'' @ '' '' @ pad_left 10 ''P95Delta'' @ newline @
     replicate 75 (CHR ''-'') @ newline"

definition system_prompt :: string where
  "system_prompt =
     ''You are The Oracle, the AI monitoring engine for Proxy Centauri, a reverse proxy.'' @ newline @
     ''Analyse the traffic metrics below and detect threats or scaling issues.'' @ newline @
     ''Respond with a single valid JSON object '' @ em_dash @ '' no other text:'' @ newline @
     json_object [(''kind'', quoted ''threat|scaling|ok''), (''level'', quoted ''low|medium|high|critical''),
       (''gate'', quoted ''<name or *>''), (''summary'', quoted ''<120 chars max>''), (''reasoning'', quoted ''<paragraph>''),
       (''action'', quoted ''<recommended action>'')] @ newline @
     ''If traffic is normal, return kind '' @ quoted ''ok'' @ '' and level '' @ quoted ''low'' @ ''.''"

definition buildPrompt :: "gate_snapshot list \<Rightarrow> string \<times> string" where
  "buildPrompt snaps = (system_prompt, prompt_head @ concat (map prompt_row snaps))"

section \<open>The call\<close>

text \<open>
  \<open>client\<close> is the Messages API (from the model's name and the two prompts, the texts of the content
  blocks or an error), \<open>unjson\<close> the decoder.
\<close>

type_synonym messages_api = "string \<Rightarrow> string \<Rightarrow> string \<Rightarrow> string + string list"


definition callClaude ::
  "messages_api \<Rightarrow> (string \<Rightarrow> string + oracle_response) \<Rightarrow>
   oracle_state \<Rightarrow> gate_snapshot list \<Rightarrow> string + oracle_response" where
  "callClaude client unjson ora snaps =
     (let (system, user) = buildPrompt snaps
      in case client (oc_Model (or_cfg ora)) system user of
           Inl e \<Rightarrow> Inl e
         | Inr [] \<Rightarrow> Inl ''empty response from Claude''
         | Inr (t # ts) \<Rightarrow>
            (case unjson t of
               Inl e \<Rightarrow> Inl (''parse Claude response: '' @ e)
             | Inr resp \<Rightarrow> Inr resp))"

definition to_signal :: "oracle_response \<Rightarrow> threat_signal" where
  "to_signal r =
     \<lparr>ts_ID = 0, ts_Ts = 0, ts_Gate = rs_Gate r, ts_Kind = rs_Kind r, ts_Level = rs_Level r,
      ts_Summary = rs_Summary r, ts_Reasoning = rs_Reasoning r, ts_Action = rs_Action r, ts_Resolved = False\<rparr>"

text \<open>
  What the world answers during one call of \<open>analyze\<close>: the clock at its three readings, the
  gathered metrics, the client and the decoder.
\<close>

record world =
  wd_read :: int
  wd_decide :: int
  wd_record :: int
  wd_gather :: "family list option"
  wd_client :: messages_api
  wd_unjson :: "string \<Rightarrow> string + oracle_response"

definition answer :: "oracle_state \<Rightarrow> world \<Rightarrow> gate_snapshot list \<Rightarrow> string + oracle_response" where
  "answer ora w snaps = callClaude (wd_client w) (wd_unjson w) ora snaps"

definition round_interval :: "oracle_state \<Rightarrow> int \<Rightarrow> f64" where
  "round_interval ora now =
     (let interval = duration_seconds (since now (or_lastCall ora))
      in if interval \<le> 0 then f64_of_int (sint (oc_IntervalSeconds (or_cfg ora))) else interval)"

definition round_snaps :: "oracle_state \<Rightarrow> world \<Rightarrow> gate_snapshot list" where
  "round_snaps ora w =
     BuildSnapshot (wd_gather w) (or_gateNames ora) (or_lastSnaps ora) (round_interval ora (wd_read w))"

definition calls_claude :: "oracle_state \<Rightarrow> world \<Rightarrow> bool" where
  "calls_claude ora w = shouldCall ora (wd_decide w) (round_snaps ora w)"

definition analyze ::
  "(threat_signal \<Rightarrow> 'db \<Rightarrow> string option \<times> 'db) \<Rightarrow> world \<Rightarrow> oracle_state \<times> 'db \<Rightarrow> oracle_state \<times> 'db" where
  "analyze save w st =
     (let (ora, db) = st; snaps = round_snaps ora w
      in if \<not> calls_claude ora w then (ora, db)
         else (case answer ora w snaps of
                 Inl e \<Rightarrow> (ora, db)
               | Inr resp \<Rightarrow>
                   let ora1 = ora\<lparr>or_lastCall := wd_record w, or_lastSnaps := snaps\<rparr>
                   in if rs_Kind resp = ''ok'' then (ora1, db)
                      else (ora1, snd (save (to_signal resp) db))))"

definition oracle_Check ::
  "(threat_signal \<Rightarrow> 'db \<Rightarrow> string option \<times> 'db) \<Rightarrow> gate_snapshot list \<Rightarrow> int \<Rightarrow> world \<Rightarrow>
   oracle_state option \<times> 'db \<Rightarrow> oracle_state option \<times> 'db" where
  "oracle_Check save snaps now w st =
     (case st of
        (None, db) \<Rightarrow> (None, db)
      | (Some ora, db) \<Rightarrow>
          if shouldCall ora now snaps
          then (let (ora1, db1) = analyze save w (ora, db) in (Some ora1, db1))
          else (Some ora, db))"

section \<open>Basic facts\<close>

lemma newWithClient_fields:
  "oc_Model (or_cfg (newWithClient cfg gs)) \<noteq> ''''"
  "oc_IntervalSeconds (or_cfg (newWithClient cfg gs)) \<noteq> 0"
  "or_lastCall (newWithClient cfg gs) = zero_time" "or_lastSnaps (newWithClient cfg gs) = []"
  by (auto simp: newWithClient_def Let_def)

lemma since_eq: "- (2 ^ 63) \<le> now - t \<Longrightarrow> now - t \<le> max_duration \<Longrightarrow> since now t = now - t"
  by (simp add: since_def)

lemma seconds_small:
  assumes "0 \<le> sint n" "sint n \<le> 9223372036"
  shows "sint (seconds n) = sint n * 1000000000"
proof -
  have "seconds n = word_of_int (sint n * 1000000000)" by (simp add: seconds_def)
  also have "sint \<dots> = sint n * 1000000000" using assms by (intro sint64_of_int) auto
  finally show ?thesis .
qed

text \<open>A call that is not due and breaches nothing changes nothing and asks nobody.\<close>

lemma analyze_quiet:
  assumes "\<not> interval_over ora (wd_decide w)" "\<forall>s\<in>set (round_snaps ora w). \<not> breaches (or_cfg ora) s"
  shows "analyze save w (ora, db) = (ora, db)"
  using assms by (simp add: analyze_def calls_claude_def shouldCall_def any_breach_iff Let_def)

lemma analyze_failed:
  "answer ora w (round_snaps ora w) = Inl e \<Longrightarrow> analyze save w (ora, db) = (ora, db)"
  by (simp add: analyze_def Let_def)

lemma analyze_cfg: "or_cfg (fst (analyze save w (ora, db))) = or_cfg ora"
  by (auto simp: analyze_def Let_def split: sum.split)

text \<open>A successful call is recorded whatever it says; only a signal that is not \<open>ok\<close> is saved.\<close>

lemma analyze_called:
  assumes "calls_claude ora w" "answer ora w (round_snaps ora w) = Inr resp"
  shows "analyze save w (ora, db) =
    (ora\<lparr>or_lastCall := wd_record w, or_lastSnaps := round_snaps ora w\<rparr>,
     if rs_Kind resp = ''ok'' then db else snd (save (to_signal resp) db))"
  using assms by (simp add: analyze_def Let_def)

section \<open>Rounds\<close>

text \<open>
  Successive rounds, each a call of \<open>analyze\<close> by the ticker, with the times at which Claude was
  asked successfully.
\<close>

fun rounds ::
  "(threat_signal \<Rightarrow> 'db \<Rightarrow> string option \<times> 'db) \<Rightarrow> world list \<Rightarrow> oracle_state \<times> 'db \<Rightarrow> int list \<times> (oracle_state \<times> 'db)" where
  "rounds save [] st = ([], st)"
| "rounds save (w # ws) st =
     (let st1 = analyze save w st;
          asked = calls_claude (fst st) w \<and> (case answer (fst st) w (round_snaps (fst st) w) of Inl e \<Rightarrow> False | Inr r \<Rightarrow> True);
          (ts, st2) = rounds save ws st1
      in ((if asked then [wd_decide w] else []) @ ts, st2))"

text \<open>Between two consecutive elements.\<close>

fun spaced :: "int \<Rightarrow> int list \<Rightarrow> bool" where
  "spaced d (x # y # ys) = (x + d \<le> y \<and> spaced d (y # ys))"
| "spaced d _ = True"

definition quiet :: "oracle_config \<Rightarrow> bool" where
  "quiet cfg \<longleftrightarrow> \<not> 0 < oc_ErrorRateThreshold cfg \<and> \<not> 0 < oc_P95LatencyThreshold cfg"

fun clock_ok :: "int \<Rightarrow> world list \<Rightarrow> bool" where
  "clock_ok t [] = True"
| "clock_ok t (w # ws) = (t \<le> wd_read w \<and> wd_read w \<le> wd_decide w \<and> wd_decide w \<le> wd_record w \<and>
     clock_ok (wd_record w) ws)"

lemma quiet_breach: "quiet cfg \<Longrightarrow> \<not> any_breach cfg ss"
  by (induction ss) (auto simp: quiet_def breaches_def)

lemma rounds_spaced_from:
  assumes "quiet (or_cfg (fst st))" "clock_ok t ws" "or_lastCall (fst st) \<le> t"
    "0 \<le> sint (seconds (oc_IntervalSeconds (or_cfg (fst st))))"
    "x \<le> or_lastCall (fst st)"
  shows "spaced (sint (seconds (oc_IntervalSeconds (or_cfg (fst st))))) (x # fst (rounds save ws st))"
  using assms
proof (induction ws arbitrary: st t x)
  case (Cons w ws)
  obtain ora db where st: "st = (ora, db)" by (cases st)
  let ?i = "sint (seconds (oc_IntervalSeconds (or_cfg ora)))"
  let ?st1 = "analyze save w st"
  have cfg: "or_cfg (fst ?st1) = or_cfg ora" by (simp add: st analyze_cfg)
  obtain ts st2 where r: "rounds save ws ?st1 = (ts, st2)" by (cases "rounds save ws ?st1") blast
  have w: "t \<le> wd_read w" "wd_read w \<le> wd_decide w" "wd_decide w \<le> wd_record w" "clock_ok (wd_record w) ws"
    using Cons.prems(2) by auto
  show ?case
  proof (cases "calls_claude ora w \<and> (\<exists>resp. answer ora w (round_snaps ora w) = Inr resp)")
    case True
    then obtain resp where resp: "answer ora w (round_snaps ora w) = Inr resp" by blast
    have last: "or_lastCall (fst ?st1) = wd_record w"
      by (simp add: st analyze_called[OF conjunct1[OF True] resp])
    have "interval_over ora (wd_decide w)"
      using True Cons.prems(1) quiet_breach by (auto simp: calls_claude_def shouldCall_def st split: if_splits)
    then have "?i \<le> wd_decide w - or_lastCall ora"
      using Cons.prems(3,4) w(1,2) by (simp add: interval_over_def since_def st max_def min_def split: if_splits)
    then have gap: "x + ?i \<le> wd_decide w" using Cons.prems(5) by (simp add: st)
    have "spaced ?i (wd_decide w # fst (rounds save ws ?st1))"
      using Cons.IH[of ?st1 "wd_record w" "wd_decide w"] Cons.prems(1,4) cfg last w by (simp add: st)
    with gap show ?thesis using True resp by (simp add: st r[unfolded st] Let_def)
  next
    case False
    then have same: "?st1 = st" by (auto simp: st analyze_def Let_def split: sum.splits)
    have "spaced ?i (x # fst (rounds save ws st))"
      using Cons.IH[of st "wd_record w" x] Cons.prems w by (simp add: st)
    with False same r show ?thesis by (auto simp: st Let_def split: sum.splits)
  qed
qed simp

section \<open>The first interval\<close>

lemma first_interval:
  "\<exists>i. duration_seconds max_duration = Fin i \<and> 9223372036 \<le> i \<and> \<not> fle (Fin i) (Fin 0)"
proof -
  have "max_duration div 1000000000 = 9223372036" by (simp add: max_duration_def)
  with duration_seconds_ge[of max_duration] obtain i where
    "duration_seconds max_duration = Fin i" "9223372036 \<le> i" by (auto simp: max_duration_def)
  then show ?thesis by (intro exI[of _ i]) simp
qed

end
