(* ===== verification/Mission_Control.thy ===== *)
theory Mission_Control
  imports Go_Os Proxy_Tasks Flux_Shield Stellar_Log Metrics_Mw Pulse_Scan The_Oracle
begin

text \<open>
  \<^verbatim>\<open>cmd/centauri/main.go\<close>: how a gate is put together, which listener it gets, what one
  request passes through, what a configuration reload does to the running gates, and the flush
  tick that feeds the store and the Oracle.
\<close>

section \<open>Starting a gate\<close>

datatype listener = L_HTTP tls_mode | L_TCP | L_UDP

definition tls_of :: "tls_config \<Rightarrow> tls_mode" where
  "tls_of t =
     (if tls_Mode t = ''auto'' then TLS_Auto (tls_Domain t)
      else if tls_Mode t = ''manual'' then TLS_Manual (tls_CertFile t) (tls_KeyFile t)
      else TLS_None)"

definition listeners :: "jump_gate \<Rightarrow> listener list" where
  "listeners g =
     (if jg_Protocol g = ''http'' then [L_HTTP (tls_of (jg_TLS g))] else []) @
     (if jg_Protocol g = ''tcp'' then [L_TCP] else []) @
     (if jg_Protocol g = ''udp'' then [L_UDP] else [])"

record gate =
  gt_lb :: lb
  gt_ps :: pulse_scan
  gt_listeners :: "listener list"

definition gate_addrs :: "jump_gate \<Rightarrow> addr list" where
  "gate_addrs g = map ss_Address (jg_StarSystems g)"

definition start_gate :: "bool \<Rightarrow> jump_gate \<Rightarrow> gate" where
  "start_gate store g =
     (let addrs = gate_addrs g;
          weights = map ss_Weight (jg_StarSystems g);
          lb = NewFromConfig addrs weights (jg_OrbitalRouter g);
          ps = ps_New (jg_Name g) addrs (jg_Protocol g) 5000000000
      in \<lparr>gt_lb = lb, gt_ps = (if store then ps_SetEventFunc ps else ps), gt_listeners = listeners g\<rparr>)"

text \<open>The registry of the reload callback: from a name to the last gate of that name.\<close>

definition gate_registry :: "jump_gate list \<Rightarrow> (string \<rightharpoonup> nat)" where
  "gate_registry gs = upd_all (\<lambda>p. jg_Name (snd p)) fst Map.empty (enumerate 0 gs)"

section \<open>One request\<close>

text \<open>A middleware that is not configured leaves its part of the state alone.\<close>

definition off_mw :: "'s handler \<Rightarrow> ('s \<times> 'x) handler" where
  "off_mw next r st = (let (s, x) = st; (calls, res, s') = next r s in (calls, res, (s', x)))"

text \<open>What the world contributes to one request: clock readings and what the backend does.\<close>

record request_env =
  re_now :: int
  re_stamp :: string
  re_log_elapsed :: int
  re_metrics_elapsed :: int
  re_parse :: "string \<Rightarrow> (string \<times> string) option"
  re_result :: backend_result

type_synonym 'l gate_state = "((lb \<times> log_entry list) \<times> metric_op list) \<times> 'l flux_shield"

text \<open>
  FluxShield, then the metrics, then the log, then the proxy. The writer the proxy gets is the
  log's \<open>statusWriter\<close>, which has neither \<open>Hijack\<close> nor \<open>Unwrap\<close>.
\<close>

definition proxy_stage :: "request_env \<Rightarrow> lb handler" where
  "proxy_stage env = p_ServeHTTP (re_parse env) False (re_result env)"

definition log_stage :: "jump_gate \<Rightarrow> request_env \<Rightarrow> (lb \<times> log_entry list) handler" where
  "log_stage g env = sl_Middleware (jg_Name g) (re_stamp env) (re_log_elapsed env) (proxy_stage env)"

definition metrics_stage :: "bool \<Rightarrow> jump_gate \<Rightarrow> request_env \<Rightarrow> ((lb \<times> log_entry list) \<times> metric_op list) handler" where
  "metrics_stage enabled g env =
     (if enabled then m_Middleware (jg_Name g) (re_metrics_elapsed env) (log_stage g env)
      else off_mw (log_stage g env))"

definition gate_handler :: "'l limiter_ops \<Rightarrow> bool \<Rightarrow> jump_gate \<Rightarrow> request_env \<Rightarrow> 'l gate_state handler" where
  "gate_handler L enabled g env =
     (if 0 < fc_RequestsPerSecond (jg_FluxShield g)
      then fs_Middleware L (re_now env) (metrics_stage enabled g env)
      else off_mw (metrics_stage enabled g env))"

section \<open>Reload\<close>

definition reload_gate :: "(string \<rightharpoonup> nat) \<Rightarrow> gate list \<Rightarrow> jump_gate \<Rightarrow> gate list" where
  "reload_gate reg gs ng =
     (case reg (jg_Name ng) of
        None \<Rightarrow> gs
      | Some i \<Rightarrow>
          let g = gs ! i; (ps, b) = ps_SetAll lb_SetBackends (gt_ps g) (gt_lb g) (gate_addrs ng)
          in gs[i := g\<lparr>gt_ps := ps, gt_lb := b\<rparr>])"

definition reload :: "(string \<rightharpoonup> nat) \<Rightarrow> config \<Rightarrow> gate list \<Rightarrow> gate list" where
  "reload reg cfg gs = foldl (reload_gate reg) gs (cf_JumpGates cfg)"

section \<open>The flush tick\<close>

text \<open>\<open>clock k\<close> is what \<open>time.Now\<close> gives for the k-th insert; an insert that fails is logged and skipped.\<close>

fun flush_all :: "'db engine \<Rightarrow> (nat \<Rightarrow> int64) \<Rightarrow> metrics_snapshot list \<Rightarrow> 'db \<Rightarrow> 'db" where
  "flush_all E clock [] db = db"
| "flush_all E clock (s # ss) db = flush_all E (\<lambda>k. clock (Suc k)) ss (snd (Flush E (clock 0) s db))"

definition flush_tick ::
  "'db engine \<Rightarrow> (nat \<Rightarrow> int64) \<Rightarrow> int64 \<Rightarrow> int \<Rightarrow> string list \<Rightarrow> family list option \<Rightarrow> family list option \<Rightarrow> world \<Rightarrow>
   oracle_state option \<times> 'db \<Rightarrow> oracle_state option \<times> 'db" where
  "flush_tick E clock save_time check_time gateNames gather1 gather2 w st =
     (let (ora, db) = st;
          db1 = flush_all E clock (Snapshots gather1 gateNames) db
      in oracle_Check (SaveSignal E save_time) (BuildSnapshot gather2 gateNames [] (Fin 30)) check_time w (ora, db1))"

lemmas SetAll_sync_lb = balancer.SetAll_sync[OF lbb.balancer_axioms]

section \<open>Facts about starting\<close>

lemma start_gate_simps [simp]:
  "gt_lb (start_gate store g) = NewFromConfig (gate_addrs g) (map ss_Weight (jg_StarSystems g)) (jg_OrbitalRouter g)"
  "gt_listeners (start_gate store g) = listeners g"
  "ps_all (gt_ps (start_gate store g)) = gate_addrs g"
  "ps_healthy (gt_ps (start_gate store g)) = upd_all (\<lambda>a. a) (\<lambda>_. True) Map.empty (gate_addrs g)"
  by (simp_all add: start_gate_def Let_def ps_New_def ps_SetEventFunc_def)

lemma start_gate_sync:
  assumes "distinct (gate_addrs g)"
  shows "scan_sync lb_addrs (gt_ps (start_gate store g)) (gt_lb (start_gate store g))"
proof -
  have h: "ps_Healthy (gt_ps (start_gate store g)) a \<longleftrightarrow> a \<in> set (gate_addrs g)" for a
    by (simp add: ps_Healthy_def upd_all_const_key)
  show ?thesis
    using assms by (auto simp: scan_sync_def h upd_all_dom filter_id_conv)
qed

lemma listeners_known:
  "jg_Protocol g \<in> {''http'', ''tcp'', ''udp''} \<Longrightarrow> length (listeners g) = 1"
  "jg_Protocol g \<notin> {''http'', ''tcp'', ''udp''} \<Longrightarrow> listeners g = []"
  by (auto simp: listeners_def)

lemma upd_all_append: "upd_all f g m (xs @ ys) = upd_all f g (upd_all f g m xs) ys"
  by (induction xs arbitrary: m) auto

lemma gate_registry_snoc: "gate_registry (gs @ [g]) = (gate_registry gs)(jg_Name g \<mapsto> length gs)"
  by (simp add: gate_registry_def enumerate_append_eq upd_all_append)

text \<open>The registry maps a name to the last gate that has it.\<close>

lemma gate_registry_last:
  "gate_registry gs n = Some i \<longleftrightarrow>
     i < length gs \<and> jg_Name (gs ! i) = n \<and> (\<forall>j. i < j \<and> j < length gs \<longrightarrow> jg_Name (gs ! j) \<noteq> n)"
proof (induction gs rule: rev_induct)
  case Nil
  then show ?case by (simp add: gate_registry_def)
next
  case (snoc g gs)
  show ?case
  proof (cases "jg_Name g = n")
    case True
    have "i < length gs \<Longrightarrow> \<exists>j>i. j < Suc (length gs) \<and> jg_Name ((gs @ [g]) ! j) = n"
      using True by (intro exI[of _ "length gs"]) simp
    with True show ?thesis
      unfolding gate_registry_snoc by (cases "i = length gs") (auto simp: less_Suc_eq)
  next
    case False
    have eq: "(gs @ [g]) ! j = (if j < length gs then gs ! j else g)" if "j < Suc (length gs)" for j
      using that by (cases "j = length gs") (simp_all add: nth_append)
    show ?thesis
      unfolding gate_registry_snoc using False snoc.IH
      by (cases "i < length gs") (auto simp: eq less_Suc_eq)
  qed
qed

section \<open>Facts about reloading\<close>

lemma reload_gate_length [simp]: "length (reload_gate reg gs ng) = length gs"
  by (simp add: reload_gate_def Let_def split: option.split prod.split)

lemma reload_gate_other: "reg (jg_Name ng) \<noteq> Some i \<Longrightarrow> reload_gate reg gs ng ! i = gs ! i"
  by (auto simp: reload_gate_def Let_def split: option.split prod.split)

lemma reload_length [simp]: "length (reload reg cfg gs) = length gs"
proof -
  have "length (foldl (reload_gate reg) gs ngs) = length gs" for ngs
    by (induction ngs arbitrary: gs) simp_all
  then show ?thesis by (simp add: reload_def)
qed

lemma reload_other:
  assumes "\<forall>ng\<in>set (cf_JumpGates cfg). reg (jg_Name ng) \<noteq> Some i"
  shows "reload reg cfg gs ! i = gs ! i"
proof -
  have "foldl (reload_gate reg) gs ngs ! i = gs ! i" if "\<forall>ng\<in>set ngs. reg (jg_Name ng) \<noteq> Some i" for ngs
    using that by (induction ngs arbitrary: gs) (simp_all add: reload_gate_other)
  then show ?thesis using assms by (simp add: reload_def)
qed

lemma reload_gate_this:
  assumes "reg (jg_Name ng) = Some i" "i < length gs"
  shows "reload_gate reg gs ng ! i = (gs ! i)\<lparr>
    gt_ps := fst (ps_SetAll lb_SetBackends (gt_ps (gs ! i)) (gt_lb (gs ! i)) (gate_addrs ng)),
    gt_lb := snd (ps_SetAll lb_SetBackends (gt_ps (gs ! i)) (gt_lb (gs ! i)) (gate_addrs ng))\<rparr>"
  using assms by (simp add: reload_gate_def Let_def split: prod.split)

lemma reload_unique:
  assumes "cf_JumpGates cfg = us @ ng # vs" "reg (jg_Name ng) = Some i" "i < length gs"
    "\<forall>g\<in>set (us @ vs). reg (jg_Name g) \<noteq> Some i"
  shows "reload reg cfg gs ! i = (gs ! i)\<lparr>
    gt_ps := fst (ps_SetAll lb_SetBackends (gt_ps (gs ! i)) (gt_lb (gs ! i)) (gate_addrs ng)),
    gt_lb := snd (ps_SetAll lb_SetBackends (gt_ps (gs ! i)) (gt_lb (gs ! i)) (gate_addrs ng))\<rparr>"
proof -
  let ?gs1 = "foldl (reload_gate reg) gs us"
  have u: "?gs1 ! i = gs ! i" using reload_other[of "cfg\<lparr>cf_JumpGates := us\<rparr>" reg i gs] assms(4)
    by (simp add: reload_def)
  have l: "i < length ?gs1" using reload_length[of reg "cfg\<lparr>cf_JumpGates := us\<rparr>" gs] assms(3)
    by (simp add: reload_def)
  have "foldl (reload_gate reg) (reload_gate reg ?gs1 ng) vs ! i = reload_gate reg ?gs1 ng ! i"
    using reload_other[of "cfg\<lparr>cf_JumpGates := vs\<rparr>" reg i "reload_gate reg ?gs1 ng"] assms(4)
    by (simp add: reload_def)
  then show ?thesis
    by (simp add: reload_def assms(1) reload_gate_this[of reg ng i ?gs1, OF assms(2) l] u)
qed

definition gates_sync :: "gate list \<Rightarrow> bool" where
  "gates_sync gs \<longleftrightarrow> (\<forall>g\<in>set gs. scan_sync lb_addrs (gt_ps g) (gt_lb g))"

lemma reload_gate_sync:
  assumes "gates_sync gs" "distinct (gate_addrs ng)"
  shows "gates_sync (reload_gate reg gs ng)"
proof (cases "reg (jg_Name ng)")
  case None
  then show ?thesis using assms(1) by (simp add: reload_gate_def)
next
  case (Some i)
  show ?thesis
  proof (cases "i < length gs")
    case True
    obtain ps b where p: "ps_SetAll lb_SetBackends (gt_ps (gs ! i)) (gt_lb (gs ! i)) (gate_addrs ng) = (ps, b)"
      by fastforce
    have "scan_sync lb_addrs (gt_ps (gs ! i)) (gt_lb (gs ! i))"
      using assms(1) True by (simp add: gates_sync_def)
    from SetAll_sync_lb[OF this assms(2) p] have "scan_sync lb_addrs ps b" .
    then show ?thesis
      using assms(1) Some p by (auto simp: gates_sync_def reload_gate_def dest: set_update_subset_insert[THEN subsetD])
  next
    case False
    then show ?thesis
      using assms(1) Some by (simp add: reload_gate_def Let_def list_update_beyond split: prod.split)
  qed
qed

lemma reload_sync:
  assumes "gates_sync gs" "\<forall>ng\<in>set (cf_JumpGates cfg). distinct (gate_addrs ng)"
  shows "gates_sync (reload reg cfg gs)"
proof -
  have "gates_sync (foldl (reload_gate reg) gs ngs)" if "\<forall>ng\<in>set ngs. distinct (gate_addrs ng)" for ngs
    using assms(1) that by (induction ngs arbitrary: gs) (simp_all add: reload_gate_sync)
  then show ?thesis using assms(2) by (simp add: reload_def)
qed

section \<open>Facts about a request\<close>

lemma proxy_stage_result:
  "fst (snd (proxy_stage env r b)) = Panicked \<longleftrightarrow>
     (\<exists>infos status body. re_result env = RT_Response infos status body False)"
  by (auto simp: proxy_stage_def p_ServeHTTP_def Let_def split: prod.splits backend_result.splits)

lemma log_stage_returned:
  assumes "proxy_stage env r b = (calls, Returned, b')"
  shows "log_stage g env r (b, lg) =
    (snd (sw_run sw_New calls), Returned,
     (b', lg @ [\<lparr>le_Time = re_stamp env, le_Gate = jg_Name g, le_Method = rq_method r, le_Path = rq_path r,
                   le_Status = sw_status (fst (sw_run sw_New calls)),
                   le_LatencyMs = milliseconds (re_log_elapsed env), le_ClientIP = clientIP r\<rparr>]))"
  unfolding log_stage_def by (rule sl_Middleware_returned[of "proxy_stage env", OF assms])

text \<open>A request that the shield lets through, when the proxy's handler returns.\<close>

definition shield_passes :: "'l limiter_ops \<Rightarrow> jump_gate \<Rightarrow> request_env \<Rightarrow> request \<Rightarrow> 'l flux_shield \<Rightarrow> bool" where
  "shield_passes L g env r fs \<longleftrightarrow>
     \<not> 0 < fc_RequestsPerSecond (jg_FluxShield g) \<or> fst (fs_allow L fs (extractIP r) (re_now env))"

lemma gate_handler_passes:
  assumes "shield_passes L g env r fs" "metrics_stage enabled g env r s = (calls, res, s')"
  shows "\<exists>fs1. gate_handler L enabled g env r (s, fs) = (calls, res, (s', fs1))"
proof (cases "0 < fc_RequestsPerSecond (jg_FluxShield g)")
  case True
  then have "fst (fs_allow L fs (extractIP r) (re_now env))" using assms(1) by (simp add: shield_passes_def)
  from fs_Middleware_pass[of L fs r "re_now env" "metrics_stage enabled g env" s, OF this assms(2)] True
  show ?thesis by (simp add: gate_handler_def)
next
  case False
  then show ?thesis using assms(2) by (simp add: gate_handler_def off_mw_def)
qed

lemma gate_handler_returned:
  assumes "proxy_stage env r b = (calls, Returned, b')" "shield_passes L g env r fs"
    "gate_handler L True g env r (((b, lg), ops), fs) = (out, res, (((b1, log1), ops1), fs1))"
  shows "out = snd (sw_run sw_New (snd (sw_run sw_New calls)))" "res = Returned" "b1 = b'"
    "log1 = lg @ [\<lparr>le_Time = re_stamp env, le_Gate = jg_Name g, le_Method = rq_method r, le_Path = rq_path r,
       le_Status = sw_status (fst (sw_run sw_New calls)),
       le_LatencyMs = milliseconds (re_log_elapsed env), le_ClientIP = clientIP r\<rparr>]"
    "ops1 = ops @ [GaugeInc (jg_Name g), HistObserve (jg_Name g) (duration_seconds (re_metrics_elapsed env)),
       CounterInc (jg_Name g) (Itoa (sw_status (fst (sw_run sw_New (snd (sw_run sw_New calls)))))),
       GaugeDec (jg_Name g)]"
proof -
  note l = log_stage_returned[OF assms(1), of g lg]
  note m = m_Middleware_returned[of "log_stage g env" r "(b, lg)", OF l, of "jg_Name g" "re_metrics_elapsed env" ops]
  then have "metrics_stage True g env r ((b, lg), ops) = m_Middleware (jg_Name g) (re_metrics_elapsed env) (log_stage g env) r ((b, lg), ops)"
    by (simp add: metrics_stage_def)
  note gate_handler_passes[OF assms(2), OF trans[OF this m]]
  then show "out = snd (sw_run sw_New (snd (sw_run sw_New calls)))" "res = Returned" "b1 = b'"
    "log1 = lg @ [\<lparr>le_Time = re_stamp env, le_Gate = jg_Name g, le_Method = rq_method r, le_Path = rq_path r,
       le_Status = sw_status (fst (sw_run sw_New calls)),
       le_LatencyMs = milliseconds (re_log_elapsed env), le_ClientIP = clientIP r\<rparr>]"
    "ops1 = ops @ [GaugeInc (jg_Name g), HistObserve (jg_Name g) (duration_seconds (re_metrics_elapsed env)),
       CounterInc (jg_Name g) (Itoa (sw_status (fst (sw_run sw_New (snd (sw_run sw_New calls)))))),
       GaugeDec (jg_Name g)]"
    using assms(3) by auto
qed

text \<open>
  When the backend sent no informational status either, the client's status, the log's status and
  the counter's label are one.
\<close>

lemma gate_handler_passed:
  assumes "proxy_stage env r b = (calls, Returned, b')" "no_informational calls" "shield_passes L g env r fs"
    "gate_handler L True g env r (((b, lg), ops), fs) = (out, res, (((b1, log1), ops1), fs1))"
  shows "wire_status out = wire_status calls" "body_bytes out = body_bytes calls"
    "length (header_writes out) \<le> 1"
    "\<exists>e. log1 = lg @ [e] \<and> le_Status e = wire_status calls \<and> le_ClientIP e = clientIP r"
    "ops1 = ops @ [GaugeInc (jg_Name g), HistObserve (jg_Name g) (duration_seconds (re_metrics_elapsed env)),
       CounterInc (jg_Name g) (Itoa (wire_status calls)), GaugeDec (jg_Name g)]"
proof -
  note e = gate_handler_returned[OF assms(1,3,4)]
  have st: "\<not> sw_wrote sw_New" "sw_status sw_New = 200" by (simp_all add: sw_New_def)
  note s1 = sw_run_status[OF assms(2) st]
  note s2 = sw_run_status[OF sw_run_no_informational[OF assms(2), of sw_New] st]
  show "wire_status out = wire_status calls" using e(1) s1 s2 by simp
  show "body_bytes out = body_bytes calls" using e(1) by (simp add: sw_run_body)
  show "length (header_writes out) \<le> 1" using e(1) sw_run_one_header by simp
  show "\<exists>e. log1 = lg @ [e] \<and> le_Status e = wire_status calls \<and> le_ClientIP e = clientIP r"
    using e(4) s1 by simp
  show "ops1 = ops @ [GaugeInc (jg_Name g), HistObserve (jg_Name g) (duration_seconds (re_metrics_elapsed env)),
       CounterInc (jg_Name g) (Itoa (wire_status calls)), GaugeDec (jg_Name g)]"
    using e(5) s1 s2 by simp
qed

text \<open>With an informational status first, the final one is lost on the way out.\<close>

lemma gate_handler_informational:
  assumes "proxy_stage env r b = (W_WriteHeader i # cs, Returned, b')" "informational i"
    "shield_passes L g env r fs"
    "gate_handler L True g env r (((b, lg), ops), fs) = (out, res, (((b1, log1), ops1), fs1))"
  shows "wire_status out = 200" "\<exists>e. log1 = lg @ [e] \<and> le_Status e = i"
proof -
  note e = gate_handler_returned[OF assms(1,3,4)]
  obtain cs' where cs': "snd (sw_run sw_New (W_WriteHeader i # cs)) = W_WriteHeader i # cs'"
    by (simp add: sw_New_def sw_WriteHeader_def Let_def)
  show "wire_status out = 200"
    unfolding e(1) cs' by (rule sw_run_informational(2)[OF assms(2)])
  show "\<exists>e. log1 = lg @ [e] \<and> le_Status e = i"
    unfolding e(4) using sw_run_informational(1)[OF assms(2), of cs] by simp
qed

text \<open>A request the shield rejects touches nothing behind it.\<close>

lemma gate_handler_rejected:
  assumes "0 < fc_RequestsPerSecond (jg_FluxShield g)"
    "\<not> fst (fs_allow L fs (extractIP r) (re_now env))"
  shows "\<exists>fs1. gate_handler L enabled g env r (inner, fs) =
    ([W_Header ''Retry-After'' ''1''] @ http_error ''Too Many Requests'' 429, Returned, (inner, fs1))"
  using assms by (simp add: gate_handler_def fs_Middleware_reject)

text \<open>The balancer behind the whole chain is the one the proxy leaves.\<close>

lemma gate_handler_lb:
  assumes "shield_passes L g env r fs"
    "gate_handler L enabled g env r (((b, lg), ops), fs) = (out, res, (((b1, log1), ops1), fs1))"
  shows "b1 = snd (snd (proxy_stage env r b))"
proof -
  obtain calls x b' where p: "proxy_stage env r b = (calls, x, b')" by (metis prod_cases3)
  have "\<exists>lc lx llog. log_stage g env r (b, lg) = (lc, lx, (b', llog))"
    using p by (cases x) (simp_all add: log_stage_def sl_Middleware_returned sl_Middleware_panicked)
  then obtain lc lx llog where l: "log_stage g env r (b, lg) = (lc, lx, (b', llog))" by blast
  have "\<exists>mc mx mops. metrics_stage enabled g env r ((b, lg), ops) = (mc, mx, ((b', llog), mops))"
    using l by (cases lx; cases enabled)
      (simp_all add: metrics_stage_def off_mw_def m_Middleware_returned m_Middleware_panicked)
  then obtain mc mx mops where "metrics_stage enabled g env r ((b, lg), ops) = (mc, mx, ((b', llog), mops))"
    by blast
  from gate_handler_passes[OF assms(1) this] assms(2) p show ?thesis by auto
qed

end
