(* ===== verification/Registry.thy ===== *)
theory Registry
  imports Collector "HOL-Library.Multiset"
begin

text \<open>
  The metric vectors of \<^verbatim>\<open>internal/metrics/collector.go\<close> between the two sides of it: what the
  middleware did to them (a history of operations) and what the gatherer returns. The registry in between
  is library code; \<open>registry_ok\<close> states what the Prometheus client documents of it: one series
  per combination of labels that was ever touched, in any order, a counter with the sum of what was added,
  a histogram with the number of observations at or below each bound. Under it \<open>Snapshots\<close> reads
  back what the middleware counted.
\<close>

section \<open>The vectors\<close>

text \<open>What a history adds to a counter vector: the gate, the second label and the amount.\<close>

type_synonym addition = "string \<times> string \<times> nat"

definition request_adds :: "metric_op list \<Rightarrow> addition list" where
  "request_adds ops =
     concat (map (\<lambda>op. case op of CounterInc g c \<Rightarrow> [(g, c, 1)] | CounterAdd g c n \<Rightarrow> [(g, c, n)] | _ \<Rightarrow> []) ops)"

definition error_adds :: "metric_op list \<Rightarrow> addition list" where
  "error_adds ops = concat (map (\<lambda>op. case op of ErrorsAdd g e n \<Rightarrow> [(g, e, n)] | _ \<Rightarrow> []) ops)"

definition RequestsTotal_labels :: "string \<Rightarrow> string \<Rightarrow> (string \<times> string) list" where
  "RequestsTotal_labels gate code = [(''gate'', gate), (''status_code'', code)]"

definition ErrorsTotal_labels :: "string \<Rightarrow> string \<Rightarrow> (string \<times> string) list" where
  "ErrorsTotal_labels gate kind = [(''error_type'', kind), (''gate'', gate)]"

definition RequestDuration_buckets :: "f64 list" where
  "RequestDuration_buckets =
     map fl [5 / 1000, 1 / 100, 25 / 1000, 5 / 100, 1 / 10, 25 / 100, 5 / 10, 1, 25 / 10, 5]"

lemma adds_simps [simp]:
  "request_adds [] = []" "request_adds (xs @ ys) = request_adds xs @ request_adds ys"
  "request_adds (op # ops) =
    (case op of CounterInc g c \<Rightarrow> [(g, c, 1)] | CounterAdd g c n \<Rightarrow> [(g, c, n)] | _ \<Rightarrow> []) @ request_adds ops"
  "error_adds [] = []" "error_adds (xs @ ys) = error_adds xs @ error_adds ys"
  "error_adds (op # ops) = (case op of ErrorsAdd g e n \<Rightarrow> [(g, e, n)] | _ \<Rightarrow> []) @ error_adds ops"
  by (simp_all add: request_adds_def error_adds_def)

section \<open>What the gatherer returns\<close>

definition series_keys :: "addition list \<Rightarrow> (string \<times> string) list" where
  "series_keys adds = remdups (map (\<lambda>(g, c, n). (g, c)) adds)"

definition series_total :: "string \<Rightarrow> string \<Rightarrow> addition list \<Rightarrow> nat" where
  "series_total g c adds = (\<Sum>(x, y, n)\<leftarrow>adds. if x = g \<and> y = c then n else 0)"

definition counter_series :: "(string \<Rightarrow> string \<Rightarrow> (string \<times> string) list) \<Rightarrow> addition list \<Rightarrow> ((string \<times> string) list \<times> f64) list" where
  "counter_series labels adds =
     map (\<lambda>(g, c). (labels g c, f64_of_int (int (series_total g c adds)))) (series_keys adds)"

definition hist_of :: "f64 list \<Rightarrow> f64 list \<Rightarrow> histogram" where
  "hist_of bounds vs =
     \<lparr>h_count = of_nat (length vs),
      h_buckets = map (\<lambda>u. \<lparr>b_cum = of_nat (length (filter (\<lambda>v. v \<le> u) vs)), b_upper = u\<rparr>) bounds\<rparr>"

definition observed_gates :: "metric_op list \<Rightarrow> string list" where
  "observed_gates ops = remdups (concat (map (\<lambda>op. case op of HistObserve g v \<Rightarrow> [g] | _ \<Rightarrow> []) ops))"

definition duration_series :: "metric_op list \<Rightarrow> ((string \<times> string) list \<times> histogram) list" where
  "duration_series ops =
     map (\<lambda>g. ([(''gate'', g)], hist_of RequestDuration_buckets (samples g ops))) (observed_gates ops)"

definition counters :: "metric list \<Rightarrow> ((string \<times> string) list \<times> f64) list" where
  "counters ms = map (\<lambda>m. (mt_labels m, mt_counter m)) ms"

definition histograms :: "metric list \<Rightarrow> ((string \<times> string) list \<times> histogram) list" where
  "histograms ms = map (\<lambda>m. (mt_labels m, mt_histogram m)) ms"

definition registry_ok :: "metric_op list \<Rightarrow> family list \<Rightarrow> bool" where
  "registry_ok ops mfs \<longleftrightarrow>
     mset (counters (series ''centauri_requests_total'' mfs)) =
       mset (counter_series RequestsTotal_labels (request_adds ops)) \<and>
     mset (counters (series ''centauri_errors_total'' mfs)) =
       mset (counter_series ErrorsTotal_labels (error_adds ops)) \<and>
     mset (histograms (series ''centauri_request_duration_seconds'' mfs)) = mset (duration_series ops)"

section \<open>A counter of a gate is the sum of what was added for it\<close>

definition gate_total :: "string \<Rightarrow> addition list \<Rightarrow> nat" where
  "gate_total g adds = (\<Sum>(x, y, n)\<leftarrow>adds. if x = g then n else 0)"

lemma total_simps [simp]:
  "series_total g c [] = 0" "gate_total g [] = 0"
  "series_total g c ((x, y, n) # adds) = (if x = g \<and> y = c then n else 0) + series_total g c adds"
  "gate_total g ((x, y, n) # adds) = (if x = g then n else 0) + gate_total g adds"
  "gate_total g (adds @ adds') = gate_total g adds + gate_total g adds'"
  by (simp_all add: series_total_def gate_total_def)

lemma series_total_sum:
  assumes "finite C" "\<forall>(x, y, n) \<in> set adds. x = g \<longrightarrow> y \<in> C"
  shows "(\<Sum>c\<in>C. series_total g c adds) = gate_total g adds"
  using assms(2)
proof (induction adds)
  case (Cons a adds)
  obtain x y n where a: "a = (x, y, n)" by (metis prod_cases3)
  have "(\<Sum>c\<in>C. if x = g \<and> y = c then n else 0) = (if x = g then n else 0)"
    using Cons.prems assms(1) a by (auto simp: sum.delta')
  with Cons show ?case by (simp add: a sum.distrib)
qed simp

lemma series_total_le: "series_total g c adds \<le> gate_total g adds"
  by (induction adds) auto

lemma series_keys_gate: "distinct (map snd (filter (\<lambda>k. fst k = g) (series_keys adds)))"
proof -
  have "distinct (series_keys adds)" by (simp add: series_keys_def)
  then show ?thesis by (auto simp: distinct_map inj_on_def)
qed

text \<open>\<open>gate_sum\<close> sees only labels and counters, in any order.\<close>

definition labelled :: "string \<Rightarrow> ((string \<times> string) list \<times> 'v) list \<Rightarrow> 'v list" where
  "labelled g kvs = map snd (filter (\<lambda>kv. labelValue (fst kv) ''gate'' = g) kvs)"

lemma labelled_mset: "mset kvs = mset kvs' \<Longrightarrow> mset (labelled g kvs) = mset (labelled g kvs')"
  unfolding labelled_def by simp

lemma gate_sum_labelled: "gate_sum g ms = sum_list (map int64_of_f64 (labelled g (counters ms)))"
  by (induction ms) (simp_all add: gate_sum_def labelled_def counters_def)

lemma histogram_labelled:
  "map mt_histogram (filter (\<lambda>m. labelValue (mt_labels m) ''gate'' = g) ms) = labelled g (histograms ms)"
  by (induction ms) (simp_all add: labelled_def histograms_def)

lemma sum_list_mset:
  fixes xs ys :: "'a :: comm_monoid_add list"
  assumes "mset xs = mset ys"
  shows "sum_list xs = sum_list ys"
  using assms by (metis sum_mset_sum_list)

lemma int64_of_count:
  assumes "n \<le> 2 ^ 53"
  shows "int64_of_f64 (f64_of_int (int n)) = of_nat n"
proof -
  have "int n \<le> int (2 ^ 53)" using assms by (simp only: zle_int)
  then have "f64_of_int (int n) = Fin (of_int (int n))" by (intro f64_of_int_exact) simp
  moreover have "int n < 2 ^ 63" using \<open>int n \<le> int (2 ^ 53)\<close> by simp
  ultimately show ?thesis by (simp add: rat_trunc_def)
qed

lemma labelled_counter_series:
  assumes "\<And>g c. labelValue (labels g c) ''gate'' = g"
  shows "labelled g (counter_series labels adds) =
    map (\<lambda>c. f64_of_int (int (series_total g c adds))) (map snd (filter (\<lambda>k. fst k = g) (series_keys adds)))"
proof -
  have "filter (\<lambda>kv. labelValue (fst kv) ''gate'' = g) (map (\<lambda>(g, c). (labels g c, f64_of_int (int (series_total g c adds)))) ks) =
      map (\<lambda>(g, c). (labels g c, f64_of_int (int (series_total g c adds)))) (filter (\<lambda>k. fst k = g) ks)" for ks
    by (induction ks) (auto simp: assms)
  then show ?thesis by (auto simp: labelled_def counter_series_def)
qed

lemma counter_read_back:
  assumes "mset (counters ms) = mset (counter_series labels adds)"
    "\<And>g c. labelValue (labels g c) ''gate'' = g" "gate_total g adds \<le> 2 ^ 53"
  shows "gate_sum g ms = of_nat (gate_total g adds)"
proof -
  let ?cs = "map snd (filter (\<lambda>k. fst k = g) (series_keys adds))"
  have "gate_sum g ms = sum_list (map int64_of_f64 (labelled g (counter_series labels adds)))"
    unfolding gate_sum_labelled using labelled_mset[OF assms(1), of g] by (intro sum_list_mset) simp
  also have "\<dots> = (\<Sum>c\<leftarrow>?cs. of_nat (series_total g c adds))"
    unfolding labelled_counter_series[where labels = labels, OF assms(2)] map_map comp_def
    by (intro arg_cong[where f = sum_list] map_cong refl int64_of_count order_trans[OF series_total_le assms(3)])
  also have "\<dots> = (\<Sum>c\<in>set ?cs. of_nat (series_total g c adds))"
    by (rule sum_list_distinct_conv_sum_set[OF series_keys_gate])
  also have "\<dots> = of_nat (\<Sum>c\<in>set ?cs. series_total g c adds)" by simp
  also have "(\<Sum>c\<in>set ?cs. series_total g c adds) = gate_total g adds"
    by (rule series_total_sum) (force simp: series_keys_def)+
  finally show ?thesis .
qed

lemma filter_only: "distinct xs \<Longrightarrow> x \<in> set xs \<Longrightarrow> filter (\<lambda>y. y = x) xs = [x]"
  by (induction xs) (auto simp: filter_empty_conv)

lemma duration_read_back:
  assumes "mset (histograms ms) = mset (duration_series ops)" "samples g ops \<noteq> []"
  shows "map mt_histogram (filter (\<lambda>m. labelValue (mt_labels m) ''gate'' = g) ms) =
    [hist_of RequestDuration_buckets (samples g ops)]"
proof -
  let ?gs = "observed_gates ops"
  have in_gs: "g \<in> set ?gs" using assms(2)
    unfolding observed_gates_def by (induction ops) (auto split: metric_op.splits if_splits)
  have "filter (\<lambda>x. x = g) ?gs = [g]"
    by (rule filter_only[OF _ in_gs]) (simp add: observed_gates_def)
  then have "labelled g (duration_series ops) = [hist_of RequestDuration_buckets (samples g ops)]"
    by (simp add: labelled_def duration_series_def filter_map comp_def)
  with labelled_mset[OF assms(1), of g] show ?thesis unfolding histogram_labelled by simp
qed

lemma error_adds_total: "gate_total g (error_adds ops) = errors_total g ops"
  by (induction ops) (auto split: metric_op.split)

text \<open>A gate's counters depend on the operations of that gate only.\<close>

fun op_gate :: "metric_op \<Rightarrow> string" where
  "op_gate (GaugeInc g) = g"
| "op_gate (GaugeDec g) = g"
| "op_gate (HistObserve g v) = g"
| "op_gate (CounterInc g c) = g"
| "op_gate (CounterAdd g c n) = g"
| "op_gate (GaugeAdd g n) = g"
| "op_gate (ErrorsAdd g e n) = g"

definition gate_ops :: "string \<Rightarrow> metric_op list \<Rightarrow> metric_op list" where
  "gate_ops g ops = filter (\<lambda>op. op_gate op = g) ops"

lemma gate_ops_same:
  "gate_total g (request_adds (gate_ops g ops)) = gate_total g (request_adds ops)"
  "gate_total g (error_adds (gate_ops g ops)) = gate_total g (error_adds ops)"
  "samples g (gate_ops g ops) = samples g ops"
  unfolding gate_ops_def by (induction ops) (auto split: metric_op.split)

section \<open>Snapshots of the registry\<close>

lemma snapshot_p95:
  assumes "registry_ok ops mfs" "samples g ops \<noteq> []"
  shows "ms_P95Ms (snap_of (foldl read_family \<lparr>g_req = Map.empty, g_err = Map.empty, g_hist = Map.empty\<rparr> mfs) g) =
    histogramP95 (hist_of RequestDuration_buckets (samples g ops))"
proof -
  have "map mt_histogram (filter (\<lambda>m. labelValue (mt_labels m) ''gate'' = g)
      (series ''centauri_request_duration_seconds'' mfs)) = [hist_of RequestDuration_buckets (samples g ops)]"
    using assms by (intro duration_read_back) (auto simp: registry_ok_def)
  then obtain m where "filter (\<lambda>m. labelValue (mt_labels m) ''gate'' = g)
      (series ''centauri_request_duration_seconds'' mfs) = [m]"
    "mt_histogram m = hist_of RequestDuration_buckets (samples g ops)"
    by (auto simp: map_eq_Cons_conv)
  then show ?thesis by (simp add: snap_of_def foldl_read_hist put_histogram_last)
qed

lemma snapshot_read_back:
  assumes "registry_ok ops mfs" "samples g ops \<noteq> []" "gate_total g (request_adds ops) \<le> 2 ^ 53"
    "gate_total g (error_adds ops) \<le> 2 ^ 53"
  shows "snap_of (foldl read_family \<lparr>g_req = Map.empty, g_err = Map.empty, g_hist = Map.empty\<rparr> mfs) g =
    \<lparr>ms_Gate = g, ms_ReqTotal = of_nat (gate_total g (request_adds ops)),
     ms_ErrTotal = of_nat (gate_total g (error_adds ops)),
     ms_P95Ms = histogramP95 (hist_of RequestDuration_buckets (samples g ops))\<rparr>"
proof -
  have r: "gate_sum g (series ''centauri_requests_total'' mfs) = of_nat (gate_total g (request_adds ops))"
    using assms(1,3) by (intro counter_read_back) (auto simp: registry_ok_def RequestsTotal_labels_def)
  have e: "gate_sum g (series ''centauri_errors_total'' mfs) = of_nat (gate_total g (error_adds ops))"
    using assms(1,4) by (intro counter_read_back) (auto simp: registry_ok_def ErrorsTotal_labels_def)
  from snapshot_p95[OF assms(1,2)] r e show ?thesis
    by (simp add: snap_of_def foldl_read_req foldl_read_err get0_def[of Map.empty])
qed

text \<open>A gatherer that has this behaviour.\<close>

definition gather_all :: "metric_op list \<Rightarrow> family list" where
  "gather_all ops =
     [\<lparr>mf_name = ''centauri_requests_total'',
       mf_metrics = map (\<lambda>(l, v). \<lparr>mt_labels = l, mt_counter = v, mt_histogram = \<lparr>h_count = 0, h_buckets = []\<rparr>\<rparr>)
         (counter_series RequestsTotal_labels (request_adds ops))\<rparr>,
      \<lparr>mf_name = ''centauri_errors_total'',
       mf_metrics = map (\<lambda>(l, v). \<lparr>mt_labels = l, mt_counter = v, mt_histogram = \<lparr>h_count = 0, h_buckets = []\<rparr>\<rparr>)
         (counter_series ErrorsTotal_labels (error_adds ops))\<rparr>,
      \<lparr>mf_name = ''centauri_request_duration_seconds'',
       mf_metrics = map (\<lambda>(l, h). \<lparr>mt_labels = l, mt_counter = 0, mt_histogram = h\<rparr>) (duration_series ops)\<rparr>]"

lemma gather_all_ok: "registry_ok ops (gather_all ops)"
  by (simp add: registry_ok_def gather_all_def series_def counters_def histograms_def case_prod_beta comp_def)

end
