(* ===== verification/Gate_Life.thy ===== *)
theory Gate_Life
  imports Mission_Control Registry
begin

text \<open>
  The life of one HTTP gate, from \<open>main\<close> on: rounds of its health checker, reloads of its
  backends, clean-ups of its rate limiter and requests through its whole middleware chain, in any
  order. The shared objects are the ones the code shares: the checker and the proxy have the same
  balancer. An event runs to its end before the next one starts; what interleaving adds is the
  matter of \<open>Scan_Race\<close> (checker and reload) and \<open>Proxy_Tasks\<close> (requests and pushes).
\<close>

section \<open>Events\<close>

datatype gate_event =
    GE_Round "nat \<Rightarrow> probe"
  | GE_Reload "addr list"
  | GE_Cleanup int
  | GE_Request request_env request

type_synonym 'l gate_life = "pulse_scan \<times> 'l gate_state"

text \<open>A gate as \<open>main\<close> builds it: an empty log, its metric series, a shield without peers.\<close>

definition open_gate :: "bool \<Rightarrow> jump_gate \<Rightarrow> 'l gate_life" where
  "open_gate enabled g =
     (gt_ps (start_gate enabled g),
      (((gt_lb (start_gate enabled g), []), if enabled then InitGate (jg_Name g) else []),
       fs_New (fc_RequestsPerSecond (jg_FluxShield g)) (fc_Burst (jg_FluxShield g))))"

fun gate_step ::
  "'l limiter_ops \<Rightarrow> bool \<Rightarrow> jump_gate \<Rightarrow> gate_event \<Rightarrow> 'l gate_life \<Rightarrow> outcome list \<times> 'l gate_life" where
  "gate_step L enabled g (GE_Round env) (ps, (((b, lg), ops), fs)) =
     (let (ps', b', es) = ps_check lb_SetBackends env ps b in ([], (ps', (((b', lg), ops), fs))))"
| "gate_step L enabled g (GE_Reload as) (ps, (((b, lg), ops), fs)) =
     (let (ps', b') = ps_SetAll lb_SetBackends ps b as in ([], (ps', (((b', lg), ops), fs))))"
| "gate_step L enabled g (GE_Cleanup now) (ps, (inner, fs)) = ([], (ps, (inner, fs_cleanup fs now)))"
| "gate_step L enabled g (GE_Request env r) (ps, st) =
     (let (out, res, st') = gate_handler L enabled g env r st in ([res], (ps, st')))"

text \<open>The outcomes of the requests, in order, and the state reached.\<close>

fun gate_run ::
  "'l limiter_ops \<Rightarrow> bool \<Rightarrow> jump_gate \<Rightarrow> gate_event list \<Rightarrow> 'l gate_life \<Rightarrow> outcome list \<times> 'l gate_life" where
  "gate_run L enabled g [] s = ([], s)"
| "gate_run L enabled g (e # es) s =
     (let (res, s') = gate_step L enabled g e s; (more, s'') = gate_run L enabled g es s' in (res @ more, s''))"

lemma gate_run_Cons:
  "gate_run L enabled g (e # es) s =
     (fst (gate_step L enabled g e s) @ fst (gate_run L enabled g es (snd (gate_step L enabled g e s))),
      snd (gate_run L enabled g es (snd (gate_step L enabled g e s))))"
  by (simp add: case_prod_beta Let_def)

fun event_ok :: "gate_event \<Rightarrow> bool" where
  "event_ok (GE_Reload as) \<longleftrightarrow> distinct as \<and> '''' \<notin> set as"
| "event_ok e \<longleftrightarrow> True"

fun event_no_switch :: "gate_event \<Rightarrow> bool" where
  "event_no_switch (GE_Request env r) \<longleftrightarrow> no_switch (re_result env)"
| "event_no_switch e \<longleftrightarrow> True"

lemma gate_life_cases:
  fixes s :: "'l gate_life"
  obtains ps b lg ops fs where "s = (ps, (((b, lg), ops), fs))"
  by (metis prod.exhaust)

lemma gate_result_cases:
  fixes x :: "w_call list \<times> outcome \<times> 'l gate_state"
  obtains out res b lg ops fs where "x = (out, res, (((b, lg), ops), fs))"
  by (metis prod.exhaust)

section \<open>The balancer follows the checker\<close>

definition life_sync :: "'l gate_life \<Rightarrow> bool" where
  "life_sync s \<longleftrightarrow> (case s of (ps, (((b, lg), ops), fs)) \<Rightarrow> scan_sync lb_addrs ps b \<and> '''' \<notin> set (ps_all ps))"

lemma life_sync_simps [simp]:
  "life_sync (ps, (((b, lg), ops), fs)) \<longleftrightarrow> scan_sync lb_addrs ps b \<and> '''' \<notin> set (ps_all ps)"
  by (simp add: life_sync_def)

lemmas check_sync_lb = balancer.check_sync[OF lbb.balancer_axioms]
lemmas sync_next_none_lb = balancer.sync_next_none[OF lbb.balancer_axioms]
lemmas sync_picks_lb = balancer.sync_next[OF lbb.balancer_axioms]

lemma scan_sync_addrs: "scan_sync addrs_of ps b \<Longrightarrow> addrs_of b' = addrs_of b \<Longrightarrow> scan_sync addrs_of ps b'"
  by (simp add: scan_sync_def)

text \<open>Whatever becomes of a request, the gate's balancer serves the same backends after it.\<close>

lemma gate_handler_addrs:
  assumes "gate_handler L enabled g env r (((b, lg), ops), fs) = (out, res, (((b1, log1), ops1), fs1))"
  shows "lb_addrs b1 = lb_addrs b"
proof (cases "shield_passes L g env r fs")
  case True
  from gate_handler_lb[OF this assms] show ?thesis by (simp add: proxy_stage_def p_ServeHTTP_addrs)
next
  case False
  then have "0 < fc_RequestsPerSecond (jg_FluxShield g)"
    "\<not> fst (fs_allow L fs (extractIP r) (re_now env))" by (simp_all add: shield_passes_def)
  from gate_handler_rejected[OF this, of enabled "((b, lg), ops)"] assms show ?thesis by auto
qed

lemma gate_step_sync:
  assumes "gate_step L enabled g e s = (res, s')" "event_ok e" "life_sync s"
  shows "life_sync s'"
proof (cases e)
  case (GE_Round env)
  obtain ps b lg ops fs where s: "s = (ps, (((b, lg), ops), fs))" by (rule gate_life_cases)
  obtain ps' b' es where c: "ps_check lb_SetBackends env ps b = (ps', b', es)" by (metis prod_cases3)
  have i: "scan_sync lb_addrs ps b" "'''' \<notin> set (ps_all ps)" using assms(3) s by simp_all
  then have "distinct (ps_all ps)" by (simp add: scan_sync_def)
  from ps_check_round(2)[OF this c] check_sync_lb[OF i(1) c] i assms(1) show ?thesis
    by (auto simp: GE_Round s c)
next
  case (GE_Reload as)
  obtain ps b lg ops fs where s: "s = (ps, (((b, lg), ops), fs))" by (rule gate_life_cases)
  obtain ps' b' where c: "ps_SetAll lb_SetBackends ps b as = (ps', b')" by fastforce
  have i: "scan_sync lb_addrs ps b" "distinct as" "'''' \<notin> set as" using assms(2,3) s GE_Reload by simp_all
  then have "dom (ps_healthy ps) = set (ps_all ps)" by (simp add: scan_sync_def)
  from ps_SetAll_Healthy(3)[OF this c] SetAll_sync_lb[OF i(1,2) c] i assms(1) show ?thesis
    by (auto simp: GE_Reload s c)
next
  case (GE_Cleanup now)
  with assms show ?thesis by (cases s) (auto simp: life_sync_def)
next
  case (GE_Request env r)
  obtain ps b lg ops fs where s: "s = (ps, (((b, lg), ops), fs))" by (rule gate_life_cases)
  obtain out x b1 log1 ops1 fs1 where h:
    "gate_handler L enabled g env r (((b, lg), ops), fs) = (out, x, (((b1, log1), ops1), fs1))"
    by (rule gate_result_cases)
  have i: "scan_sync lb_addrs ps b" "'''' \<notin> set (ps_all ps)" using assms(3) s by simp_all
  from scan_sync_addrs[of lb_addrs ps b b1, OF i(1) gate_handler_addrs[OF h]] i(2) assms(1) show ?thesis
    by (auto simp: GE_Request s h)
qed

lemma gate_run_sync:
  assumes "gate_run L enabled g es s = (res, s')" "\<forall>e\<in>set es. event_ok e" "life_sync s"
  shows "life_sync s'"
  using assms
proof (induction es arbitrary: s res)
  case (Cons e es)
  obtain x s1 where e: "gate_step L enabled g e s = (x, s1)" by (cases "gate_step L enabled g e s")
  obtain more where "gate_run L enabled g es s1 = (more, s')"
    using Cons.prems(1) e by (auto split: prod.splits)
  with Cons.IH[OF this _ gate_step_sync[OF e]] Cons.prems show ?case by simp
qed simp

lemma open_gate_sync:
  "distinct (gate_addrs g) \<Longrightarrow> '''' \<notin> set (gate_addrs g) \<Longrightarrow> life_sync (open_gate enabled g)"
  using start_gate_sync[of g enabled] by (simp add: open_gate_def)

section \<open>What the proxy hands up the chain\<close>

lemma proxy_stage_error:
  assumes "re_result env = RT_Error"
  shows "proxy_stage env r b =
    (http_error (if fst (lb_Next b) = '''' then ''503 Service Unavailable'' else ''502 Bad Gateway'')
       (if fst (lb_Next b) = '''' then 503 else 502), Returned, snd (snd (proxy_stage env r b)))"
  using p_director_lb(2)[of "re_parse env" b r]
  by (auto simp: proxy_stage_def p_ServeHTTP_def p_ErrorHandler_def assms Let_def split: prod.splits)

lemma proxy_stage_response:
  assumes "re_result env = RT_Response [] status body True"
  shows "proxy_stage env r b =
    ([W_WriteHeader status, W_Write body], Returned, snd (snd (proxy_stage env r b)))"
  by (simp add: proxy_stage_def p_ServeHTTP_def assms Let_def split: prod.split)

section \<open>Log, metrics and counters account for the requests\<close>

text \<open>One request: what the shield lets through is logged and sampled when its handler returns, and
  leaves the gauge up when it panics; what the shield rejects leaves no trace.\<close>

lemma gate_handler_accounts:
  assumes "gate_handler L True g env r (((b, lg), ops), fs) = (out, res, (((b1, log1), ops1), fs1))"
  shows "length (samples (jg_Name g) ops1) + length lg = length (samples (jg_Name g) ops) + length log1"
    and "gauge (jg_Name g) ops1 = gauge (jg_Name g) ops + (if res = Panicked then 1 else 0)"
    and "length log1 = length lg + (if shield_passes L g env r fs \<and> res = Returned then 1 else 0)"
    and "errors_total (jg_Name g) ops1 = errors_total (jg_Name g) ops"
    and "gate_total (jg_Name g) (request_adds ops1) + length lg = gate_total (jg_Name g) (request_adds ops) + length log1"
    and "no_switch (re_result env) \<Longrightarrow> lb_count b1 x = lb_count b x"
proof -
  obtain calls y b' where p: "proxy_stage env r b = (calls, y, b')" by (metis prod_cases3)
  have rejected: "res = Returned \<and> b1 = b \<and> log1 = lg \<and> ops1 = ops" if "\<not> shield_passes L g env r fs"
  proof -
    have "0 < fc_RequestsPerSecond (jg_FluxShield g)"
      "\<not> fst (fs_allow L fs (extractIP r) (re_now env))" using that by (simp_all add: shield_passes_def)
    from gate_handler_rejected[OF this, of True "((b, lg), ops)"] assms show ?thesis by auto
  qed
  have panicked: "res = Panicked \<and> log1 = lg \<and> ops1 = ops @ [GaugeInc (jg_Name g)]"
    if pass: "shield_passes L g env r fs" and "y = Panicked"
  proof -
    have "log_stage g env r (b, lg) = (snd (sw_run sw_New calls), Panicked, (b', lg))"
      using p that(2) by (simp add: log_stage_def sl_Middleware_panicked)
    from m_Middleware_panicked[of "log_stage g env" r "(b, lg)", OF this]
    have "metrics_stage True g env r ((b, lg), ops) = (snd (sw_run sw_New (snd (sw_run sw_New calls))), Panicked,
        ((b', lg), ops @ [GaugeInc (jg_Name g)]))"
      by (simp add: metrics_stage_def)
    from gate_handler_passes[OF pass this] assms show ?thesis by auto
  qed
  have returned: "res = Returned \<and> length log1 = Suc (length lg) \<and> gauge (jg_Name g) ops1 = gauge (jg_Name g) ops \<and>
      errors_total (jg_Name g) ops1 = errors_total (jg_Name g) ops \<and>
      length (samples (jg_Name g) ops1) = Suc (length (samples (jg_Name g) ops)) \<and>
      gate_total (jg_Name g) (request_adds ops1) = Suc (gate_total (jg_Name g) (request_adds ops))"
    if "shield_passes L g env r fs" "y = Returned"
    using gate_handler_returned[OF p[unfolded that(2)] that(1) assms] by simp
  show "length (samples (jg_Name g) ops1) + length lg = length (samples (jg_Name g) ops) + length log1"
    "gauge (jg_Name g) ops1 = gauge (jg_Name g) ops + (if res = Panicked then 1 else 0)"
    "length log1 = length lg + (if shield_passes L g env r fs \<and> res = Returned then 1 else 0)"
    "errors_total (jg_Name g) ops1 = errors_total (jg_Name g) ops"
    "gate_total (jg_Name g) (request_adds ops1) + length lg = gate_total (jg_Name g) (request_adds ops) + length log1"
    using rejected panicked returned by (cases "shield_passes L g env r fs"; cases y; simp)+
  show "lb_count b1 x = lb_count b x" if "no_switch (re_result env)"
  proof (cases "shield_passes L g env r fs")
    case True
    from gate_handler_lb[OF this assms] p_ServeHTTP_balanced[of "re_result env" False "re_parse env" r b x] that
    show ?thesis by (auto simp: proxy_stage_def no_switch_def split: backend_result.splits)
  qed (use rejected in simp)
qed

text \<open>What one event, or a sequence of them, adds to the log, the metrics and the counters.\<close>

definition accounted :: "jump_gate \<Rightarrow> outcome list \<Rightarrow> 'l gate_life \<Rightarrow> 'l gate_life \<Rightarrow> bool" where
  "accounted g res s s' \<longleftrightarrow>
     (case (s, s') of ((ps, (((b, lg), ops), fs)), (ps', (((b', lg'), ops'), fs'))) \<Rightarrow>
        length (samples (jg_Name g) ops') + length lg = length (samples (jg_Name g) ops) + length lg' \<and>
        gauge (jg_Name g) ops' = gauge (jg_Name g) ops + int (count_result Panicked res) \<and>
        errors_total (jg_Name g) ops' = errors_total (jg_Name g) ops \<and>
        gate_total (jg_Name g) (request_adds ops') + length lg = gate_total (jg_Name g) (request_adds ops) + length lg' \<and>
        length lg' \<le> length lg + count_result Returned res \<and>
        (\<not> 0 < fc_RequestsPerSecond (jg_FluxShield g) \<longrightarrow> length lg' = length lg + count_result Returned res))"

definition life_lb :: "'l gate_life \<Rightarrow> lb" where
  "life_lb s = fst (fst (fst (snd s)))"

lemma count_result_append: "count_result x (rs @ rs') = count_result x rs + count_result x rs'"
  by (simp add: count_result_def)

lemma accounted_trans: "accounted g res s s1 \<Longrightarrow> accounted g res' s1 s2 \<Longrightarrow> accounted g (res @ res') s s2"
  by (cases s; cases s1; cases s2) (auto simp: accounted_def count_result_append split: prod.splits)

lemma accounted_same:
  "accounted g [] (ps, (((b, lg), ops), fs)) (ps', (((b', lg), ops), fs'))"
  by (simp add: accounted_def count_result_def)

lemma gate_step_accounted:
  assumes "gate_step L True g e s = (res, s')"
  shows "accounted g res s s'"
proof -
  obtain ps b lg ops fs where s: "s = (ps, (((b, lg), ops), fs))" by (rule gate_life_cases)
  show ?thesis
  proof (cases e)
    case (GE_Request env r)
    obtain out x b1 log1 ops1 fs1 where h:
      "gate_handler L True g env r (((b, lg), ops), fs) = (out, x, (((b1, log1), ops1), fs1))"
      by (rule gate_result_cases)
    have "shield_passes L g env r fs" if "\<not> 0 < fc_RequestsPerSecond (jg_FluxShield g)"
      using that by (simp add: shield_passes_def)
    with gate_handler_accounts(1-5)[OF h] assms show ?thesis
      by (cases x) (auto simp: GE_Request s h accounted_def count_result_def)
  qed (use assms in \<open>auto simp: s accounted_same split: prod.splits\<close>)
qed

lemma gate_step_counts:
  assumes "gate_step L True g e s = (res, s')" "event_no_switch e" "\<And>x. lb_count (life_lb s) x = 0"
  shows "lb_count (life_lb s') x = 0"
proof -
  obtain ps b lg ops fs where s: "s = (ps, (((b, lg), ops), fs))" by (rule gate_life_cases)
  have zero: "lb_count b y = 0" for y using assms(3)[of y] by (simp add: s life_lb_def)
  then have push: "lb_count (lb_SetBackends b as) y = 0" for as y by (simp add: lb_conn_count)
  show ?thesis
  proof (cases e)
    case (GE_Round env)
    then show ?thesis using assms(1) push zero
      by (auto simp: s life_lb_def ps_check_def check_finish_def split: prod.splits if_splits)
  next
    case (GE_Reload as)
    then show ?thesis using assms(1) push
      by (auto simp: s life_lb_def ps_SetAll_def Let_def)
  next
    case (GE_Cleanup now)
    then show ?thesis using assms(1) zero by (auto simp: s life_lb_def)
  next
    case (GE_Request env r)
    obtain out y b1 log1 ops1 fs1 where h:
      "gate_handler L True g env r (((b, lg), ops), fs) = (out, y, (((b1, log1), ops1), fs1))"
      by (rule gate_result_cases)
    have "no_switch (re_result env)" using assms(2) GE_Request by simp
    from gate_handler_accounts(6)[OF h this] zero assms(1) show ?thesis
      by (auto simp: s GE_Request h life_lb_def)
  qed
qed

lemma gate_run_accounted:
  assumes "gate_run L True g es s = (res, s')"
  shows "accounted g res s s'"
  using assms
proof (induction es arbitrary: s res)
  case Nil
  then show ?case by (cases s) (auto simp: accounted_def count_result_def split: prod.splits)
next
  case (Cons e es)
  obtain x s1 where e: "gate_step L True g e s = (x, s1)" by (cases "gate_step L True g e s")
  obtain more where more: "gate_run L True g es s1 = (more, s')" "res = x @ more"
    using Cons.prems e by (auto split: prod.splits)
  show ?case unfolding more(2) by (rule accounted_trans[OF gate_step_accounted[OF e] Cons.IH[OF more(1)]])
qed

lemma gate_run_counts:
  assumes "gate_run L True g es s = (res, s')" "\<forall>e\<in>set es. event_no_switch e" "\<And>x. lb_count (life_lb s) x = 0"
  shows "lb_count (life_lb s') x = 0"
  using assms
proof (induction es arbitrary: s res)
  case (Cons e es)
  obtain y s1 where e: "gate_step L True g e s = (y, s1)" by (cases "gate_step L True g e s")
  obtain more where "gate_run L True g es s1 = (more, s')"
    using Cons.prems(1) e by (auto split: prod.splits)
  with Cons.IH[OF this _ gate_step_counts[OF e]] Cons.prems(2,3) show ?case by simp
qed simp

text \<open>A gate starts with the one sample of \<open>InitGate\<close>, no log entry and counters at zero.\<close>

lemma open_gate_counts: "lb_count (life_lb (open_gate enabled g)) x = 0"
  by (simp add: open_gate_def life_lb_def NewFromConfig_def)

lemma open_gate_accounted:
  assumes "accounted g res (open_gate True g) (ps, (((b, lg), ops), fs))"
  shows "length (samples (jg_Name g) ops) = Suc (length lg)"
    "gauge (jg_Name g) ops = int (count_result Panicked res)" "errors_total (jg_Name g) ops = 0"
    "length lg \<le> count_result Returned res" "gate_total (jg_Name g) (request_adds ops) = length lg"
    "\<not> 0 < fc_RequestsPerSecond (jg_FluxShield g) \<Longrightarrow> length lg = count_result Returned res"
  using assms by (simp_all add: accounted_def open_gate_def InitGate_def)

section \<open>What requests do not change\<close>

text \<open>The checker does not see the requests, and whether a handler panics is up to the backend alone.\<close>

fun checker_step :: "gate_event \<Rightarrow> pulse_scan \<Rightarrow> pulse_scan" where
  "checker_step (GE_Round env) ps = fst (ps_check (\<lambda>b as. b) env ps ())"
| "checker_step (GE_Reload as) ps = fst (ps_SetAll (\<lambda>b as. b) ps () as)"
| "checker_step e ps = ps"

fun outcomes :: "gate_event list \<Rightarrow> outcome list" where
  "outcomes [] = []"
| "outcomes (GE_Request env r # es) =
     (case re_result env of RT_Response infos status body whole \<Rightarrow> if whole then Returned else Panicked
      | _ \<Rightarrow> Returned) # outcomes es"
| "outcomes (e # es) = outcomes es"

lemma gate_step_checker: "fst (snd (gate_step L enabled g e s)) = checker_step e (fst s)"
proof -
  obtain ps b lg ops fs where "s = (ps, (((b, lg), ops), fs))" by (rule gate_life_cases)
  then show ?thesis by (cases e) (simp_all add: ps_check_def ps_SetAll_def Let_def split: prod.split)
qed

lemma gate_run_checker: "fst (snd (gate_run L enabled g es s)) = fold checker_step es (fst s)"
  by (induction es arbitrary: s) (simp_all add: gate_step_checker gate_run_Cons del: gate_run.simps(2))

lemma gate_handler_outcome:
  assumes "\<not> 0 < fc_RequestsPerSecond (jg_FluxShield g)"
    "gate_handler L True g env r (((b, lg), ops), fs) = (out, res, (((b1, log1), ops1), fs1))"
  shows "res = Panicked \<longleftrightarrow> (\<exists>infos status body. re_result env = RT_Response infos status body False)"
proof -
  have pass: "shield_passes L g env r fs" using assms(1) by (simp add: shield_passes_def)
  obtain calls y b' where p: "proxy_stage env r b = (calls, y, b')" by (metis prod_cases3)
  have "\<exists>lc llog. log_stage g env r (b, lg) = (lc, y, (b', llog))"
    using p by (cases y) (simp_all add: log_stage_def sl_Middleware_returned sl_Middleware_panicked)
  then obtain lc llog where l: "log_stage g env r (b, lg) = (lc, y, (b', llog))" by blast
  have "\<exists>mc mops. metrics_stage True g env r ((b, lg), ops) = (mc, y, ((b', llog), mops))"
    using l by (cases y) (simp_all add: metrics_stage_def m_Middleware_returned m_Middleware_panicked)
  then obtain mc mops where "metrics_stage True g env r ((b, lg), ops) = (mc, y, ((b', llog), mops))" by blast
  from gate_handler_passes[OF pass this] assms(2) have "res = y" by auto
  with proxy_stage_result[of env r b] p show ?thesis by simp
qed

lemma gate_run_outcomes:
  assumes "\<not> 0 < fc_RequestsPerSecond (jg_FluxShield g)"
  shows "fst (gate_run L True g es s) = outcomes es"
proof (induction es arbitrary: s)
  case (Cons e es)
  obtain x s1 where e: "gate_step L True g e s = (x, s1)" by (cases "gate_step L True g e s")
  obtain ps b lg ops fs where s: "s = (ps, (((b, lg), ops), fs))" by (rule gate_life_cases)
  have "x @ outcomes es = outcomes (e # es)"
  proof (cases e)
    case (GE_Request env r)
    obtain out y b1 log1 ops1 fs1 where h:
      "gate_handler L True g env r (((b, lg), ops), fs) = (out, y, (((b1, log1), ops1), fs1))"
      by (rule gate_result_cases)
    with gate_handler_outcome[OF assms h] e show ?thesis
      by (cases y; cases "re_result env") (auto simp: GE_Request s)
  qed (use e s in \<open>auto split: prod.splits\<close>)
  with Cons.IH[of s1] e show ?case by (simp add: gate_run_Cons del: gate_run.simps(2))
qed simp

end
