(* ===== verification/Serving_Props.thy ===== *)
theory Serving_Props
  imports Mission_Control
begin

text \<open>
  The properties of the HTTP path: the proxy on its own, the middlewares on their own, and a whole
  request through the chain a gate builds.
\<close>

text \<open>A limiter with a burst and no refill, and a gate and a request to instantiate properties with.\<close>

definition burst_limiter :: "nat limiter_ops" where
  "burst_limiter = \<lparr>lim_new = (\<lambda>rps burst. unat burst), lim_allow = (\<lambda>now n. (0 < n, n - 1))\<rparr>"

definition plain_gate :: jump_gate where
  "plain_gate =
     \<lparr>jg_Name = ''g'', jg_Listen = '':1'', jg_Protocol = ''http'', jg_OrbitalRouter = ''least_connections'',
      jg_TLS = \<lparr>tls_Mode = '''', tls_Domain = '''', tls_CertFile = '''', tls_KeyFile = ''''\<rparr>,
      jg_FluxShield = \<lparr>fc_RequestsPerSecond = Fin 1, fc_Burst = 1\<rparr>,
      jg_StarSystems = [\<lparr>ss_Address = ''a:1'', ss_Weight = 1\<rparr>]\<rparr>"

definition plain_request :: request where
  "plain_request =
     \<lparr>rq_method = ''GET'', rq_scheme = '''', rq_url_host = '''', rq_path = ''/x'', rq_host = ''h'',
      rq_header = (\<lambda>_. []), rq_remote = ''10.0.0.7:4711''\<rparr>"

definition plain_env :: "backend_result \<Rightarrow> request_env" where
  "plain_env result =
     \<lparr>re_now = 0, re_stamp = ''t'', re_log_elapsed = 1, re_metrics_elapsed = 1,
      re_parse = (\<lambda>u. Some (''http'', drop 7 u)), re_result = result\<rparr>"

definition plain_lb :: lb where
  "plain_lb = NewFromConfig [''a:1''] [1] ''least_connections''"

definition plain_shield :: "nat flux_shield" where
  "plain_shield = fs_New (Fin 1) 1"

definition plain_state :: "nat gate_state" where
  "plain_state = (((plain_lb, []), []), plain_shield)"

definition run_plain :: "backend_result \<Rightarrow> w_call list \<times> outcome \<times> nat gate_state" where
  "run_plain result = gate_handler burst_limiter True plain_gate (plain_env result) plain_request plain_state"

lemma plain_next: "fst (lb_Next plain_lb) = ''a:1''" "lb_tracks plain_lb ''a:1''" "lb_count plain_lb ''a:1'' = 0"
  by (code_simp, code_simp, code_simp)

lemma plain_passes: "shield_passes burst_limiter plain_gate (plain_env result) plain_request plain_shield"
  by (simp add: shield_passes_def fs_allow_def fs_limiter_def burst_limiter_def plain_shield_def fs_New_def Let_def)

lemma run_plain_split:
  "\<exists>out res b1 log1 ops1 fs1. run_plain result = (out, res, (((b1, log1), ops1), fs1))"
  by (metis prod_cases3 surj_pair)

section \<open>Concurrent requests\<close>


text \<open>One request whose headers are there, taken step by step.\<close>

fun solo :: "backend_result list \<Rightarrow> rq_sys \<Rightarrow> rq_sys" where
  "solo [] s = s"
| "solo (x # xs) s =
     (case tk_tasks s 7 of
        None \<Rightarrow> s
      | Some c \<Rightarrow>
          let (c', b) = proxy_step False x c (tk_lb s)
          in solo xs (s\<lparr>tk_lb := b, tk_tasks := (tk_tasks s)(7 \<mapsto> c')\<rparr>))"

lemma solo_reach: "list_all no_switch xs \<Longrightarrow> (proxy_run allowed)\<^sup>*\<^sup>* s (solo xs s)"
proof (induction xs arbitrary: s)
  case (Cons x xs)
  show ?case
  proof (cases "tk_tasks s 7")
    case (Some c)
    let ?t = "s\<lparr>tk_lb := snd (proxy_step False x c (tk_lb s)),
      tk_tasks := (tk_tasks s)(7 \<mapsto> fst (proxy_step False x c (tk_lb s)))\<rparr>"
    have "proxy_run allowed s ?t" using Cons.prems Some by (intro proxy_run_step) simp_all
    moreover have "(proxy_run allowed)\<^sup>*\<^sup>* ?t (solo xs ?t)" using Cons by simp
    ultimately show ?thesis using Some
      by (cases "proxy_step False x c (tk_lb s)") (simp add: converse_rtranclp_into_rtranclp)
  qed simp
qed simp

definition one_request :: rq_sys where
  "one_request =
     (let s = task_init (NewFromConfig [''a'', ''b''] [] ''least_connections'')
      in s\<lparr>tk_tasks := (tk_tasks s)(7 \<mapsto> RQ_Next)\<rparr>)"


section \<open>A request through a gate\<close>

text \<open>When the shield lets a request through and the backend answers without informational
  statuses, the client receives the backend's status and body, with one status line; the log gets one
  entry with that status and the client's address; the counter of that status and the latency
  histogram get one sample, and the gauge is back where it was.\<close>

lemma gate_passes_request:
  assumes "shield_passes L g env r fs" "re_result env = RT_Response [] status body True" "\<not> informational status"
    "gate_handler L True g env r (((b, lg), ops), fs) = (out, res, (((b1, log1), ops1), fs1))"
  shows "res = Returned \<and> wire_status out = status \<and> body_bytes out = body \<and> length (header_writes out) \<le> 1 \<and>
    (\<exists>e. log1 = lg @ [e] \<and> le_Status e = status \<and> le_ClientIP e = clientIP r) \<and>
    gauge (jg_Name g) ops1 = gauge (jg_Name g) ops \<and>
    counter (jg_Name g) (Itoa status) ops1 = counter (jg_Name g) (Itoa status) ops + 1 \<and>
    length (samples (jg_Name g) ops1) = length (samples (jg_Name g) ops) + 1"
proof -
  let ?calls = "[W_WriteHeader status, W_Write body]"
  have p: "proxy_stage env r b = (?calls, Returned, snd (snd (proxy_stage env r b)))"
    by (simp add: proxy_stage_def p_ServeHTTP_def assms(2) Let_def split: prod.split)
  have n: "no_informational ?calls" "wire_status ?calls = status" "body_bytes ?calls = body"
    using assms(3) by simp_all
  note e = gate_handler_passed[OF p n(1) assms(1,4)] gate_handler_returned(2)[OF p assms(1,4)]
  show ?thesis using e n by simp
qed

theorem gate_passes_request_witness:
  "wire_status (fst (run_plain (RT_Response [] 404 ''no'' True))) = 404"
proof -
  obtain out res b1 log1 ops1 fs1 where r: "run_plain (RT_Response [] 404 ''no'' True) = (out, res, (((b1, log1), ops1), fs1))"
    using run_plain_split by blast
  from gate_passes_request[OF plain_passes _ _ r[unfolded run_plain_def plain_state_def]] show ?thesis
    by (simp add: r plain_env_def informational_def)
qed

text \<open>C21: A request the shield rejects is answered with 429 and touches nothing behind the shield: not
  the balancer, not the log, not the metrics.\<close>

theorem gate_rejects_request:
  assumes "\<not> shield_passes L g env r fs"
  shows "\<exists>fs1. gate_handler L enabled g env r (inner, fs) =
      ([W_Header ''Retry-After'' ''1''] @ http_error ''Too Many Requests'' 429, Returned, (inner, fs1))"
  using assms gate_handler_rejected[of g L fs r env enabled inner] by (simp add: shield_passes_def)

theorem gate_rejects_request_witness:
  "\<exists>fs1. gate_handler burst_limiter True plain_gate (plain_env RT_Error) plain_request
       (((plain_lb, []), []), snd (fs_allow burst_limiter plain_shield ''10.0.0.7'' 0)) =
     ([W_Header ''Retry-After'' ''1''] @ http_error ''Too Many Requests'' 429, Returned, (((plain_lb, []), []), fs1))"
proof -
  have "extractIP plain_request = ''10.0.0.7''" by code_simp
  moreover have "0 < fc_RequestsPerSecond (jg_FluxShield plain_gate)" by (simp add: plain_gate_def)
  ultimately have "\<not> shield_passes burst_limiter plain_gate (plain_env RT_Error) plain_request
      (snd (fs_allow burst_limiter plain_shield ''10.0.0.7'' 0))"
    by (simp add: shield_passes_def fs_allow_def fs_limiter_def burst_limiter_def plain_shield_def fs_New_def Let_def)
  then show ?thesis by (rule gate_rejects_request)
qed

text \<open>C22: Every protocol switch through a gate fails, because the proxy's writer cannot be hijacked, and
  is released twice: the client gets 502 and the least-connections counter of the backend ends one too
  low.\<close>

theorem gate_upgrade_releases_twice:
  assumes "shield_passes L g env r fs" "re_result env = RT_Switching ok"
    "fst (lb_Next b) = a" "a \<noteq> ''''" "lb_tracks b a"
    "gate_handler L True g env r (((b, lg), ops), fs) = (out, res, (((b1, log1), ops1), fs1))"
  shows "wire_status out = 502 \<and> lb_count b1 a = lb_count b a - 1"
proof -
  let ?calls = "http_error ''502 Bad Gateway'' 502"
  obtain b2 t req' where d: "p_director (re_parse env) b r = (b2, t, req')" by (metis prod_cases3)
  have "t = a" using p_director_lb(2)[of "re_parse env" b r] d assms(3) by simp
  then have p: "proxy_stage env r b = (?calls, Returned, snd (snd (proxy_stage env r b)))"
    using assms(4) d by (simp add: proxy_stage_def p_ServeHTTP_def assms(2) p_ErrorHandler_def Let_def)
  have n: "no_informational ?calls" "wire_status ?calls = 502" by (simp_all add: informational_def)
  have "lb_count b1 a = lb_count b a - 1"
    using gate_handler_lb[OF assms(1,6)] p_ServeHTTP_double_release[OF assms(3-5), of ok False] assms(2)
    by (simp add: proxy_stage_def)
  with gate_handler_passed(1)[OF p n(1) assms(1,6)] n(2) show ?thesis by simp
qed

theorem gate_upgrade_releases_twice_witness:
  "lb_count (fst (fst (fst (snd (snd (run_plain (RT_Switching True))))))) ''a:1'' = -1"
proof -
  obtain out res b1 log1 ops1 fs1 where r: "run_plain (RT_Switching True) = (out, res, (((b1, log1), ops1), fs1))"
    using run_plain_split by blast
  from gate_upgrade_releases_twice[OF plain_passes _ _ _ _ r[unfolded run_plain_def plain_state_def], of True "''a:1''"]
  show ?thesis by (simp add: r plain_env_def plain_next)
qed

text \<open>C23: When the backend sends an informational status first, its final status is lost: the client
  receives 200 and the log records the informational one.\<close>

theorem gate_loses_final_status:
  assumes "shield_passes L g env r fs" "re_result env = RT_Response (i # infos) status body True" "informational i"
    "gate_handler L True g env r (((b, lg), ops), fs) = (out, res, (((b1, log1), ops1), fs1))"
  shows "wire_status out = 200 \<and> (\<exists>e. log1 = lg @ [e] \<and> le_Status e = i)"
proof -
  have p: "proxy_stage env r b =
      (W_WriteHeader i # map W_WriteHeader infos @ [W_WriteHeader status, W_Write body], Returned,
       snd (snd (proxy_stage env r b)))"
    by (simp add: proxy_stage_def p_ServeHTTP_def assms(2) Let_def split: prod.split)
  from gate_handler_informational[OF p assms(3,1,4)] show ?thesis ..
qed

theorem gate_loses_final_status_witness:
  "wire_status (fst (run_plain (RT_Response [103] 404 ''no'' True))) = 200"
proof -
  obtain out res b1 log1 ops1 fs1 where r: "run_plain (RT_Response [103] 404 ''no'' True) = (out, res, (((b1, log1), ops1), fs1))"
    using run_plain_split by blast
  from gate_loses_final_status[OF plain_passes _ _ r[unfolded run_plain_def plain_state_def]] show ?thesis
    by (simp add: r plain_env_def informational_def)
qed

section \<open>The middlewares\<close>

text \<open>C26: The log file is one line per entry, whatever is in the request: its newlines are as many as the
  entries. Two logs of ASCII entries that give the same bytes are the same log, so nothing a client
  sends can imitate or hide an entry.\<close>

theorem log_is_one_line_per_entry:
  "count_list (log_file es) (CHR 0x0A) = length es \<and>
   (list_all ascii_entry es \<and> list_all ascii_entry es' \<and> log_file es = log_file es' \<longrightarrow> es = es')"
  using log_file_newlines log_file_inj by blast

definition forged_entry :: log_entry where
  "forged_entry =
     \<lparr>le_Time = ''2025-01-01T00:00:00Z'', le_Gate = ''g'', le_Method = ''GET'',
      le_Path = ''/'' @ [CHR 0x22, CHR 0x0A, CHR ''{''], le_Status = 200, le_LatencyMs = 3, le_ClientIP = ''10.0.0.7''\<rparr>"

theorem log_is_one_line_per_entry_witness:
  "count_list (log_file [forged_entry, forged_entry]) (CHR 0x0A) = 2 \<and>
   log_file [forged_entry, forged_entry] \<noteq> log_file [forged_entry]"
proof -
  have "ascii_entry forged_entry" by code_simp
  then show ?thesis
    using log_is_one_line_per_entry[of "[forged_entry, forged_entry]" "[forged_entry]"] by auto
qed

text \<open>C24: Rate limiting is per client: over any sequence of arrivals and cleanups the decisions about one
  address are those of a shield that sees no other client.\<close>

theorem shield_isolates_clients:
  "filter (\<lambda>d. fst d = ip) (fst (run_shield L fs ops)) = fst (run_shield L fs (filter (concerns ip) ops))"
  by (rule run_shield_isolated) (simp add: agree_on_def)

text \<open>C25: The address the shield counts and the address the log records are the same for a client behind
  a proxy that names it and for a direct client with a plain address.\<close>

theorem shield_and_log_agree:
  assumes "TrimSpace (takeWhile (\<lambda>x. x \<noteq> CHR '','') (header_get (rq_header r) XFF)) \<noteq> '''' \<or>
    header_get (rq_header r) XFF = '''' \<and> rq_remote r = host @ CHR '':'' # port \<and>
      (\<forall>c \<in> {CHR '':'', CHR ''['', CHR '']''}. c \<notin> set host \<and> c \<notin> set port)"
  shows "extractIP r = clientIP r"
proof (cases "header_get (rq_header r) XFF = ''''")
  case True
  with assms have a: "rq_remote r = host @ CHR '':'' # port"
    "\<forall>c \<in> {CHR '':'', CHR ''['', CHR '']''}. c \<notin> set host \<and> c \<notin> set port" by auto
  with clientIP_remote[OF True a(1)] SplitHostPort_plain[OF a(2)] True show ?thesis
    by (simp add: extractIP_def Let_def)
next
  case False
  with assms clientIP_xff[OF False] show ?thesis by (simp add: extractIP_def split_n2_head Let_def)
qed

theorem shield_and_log_agree_witness: "extractIP plain_request = clientIP plain_request"
  using shield_and_log_agree[of plain_request "''10.0.0.7''" "''4711''"]
  by (simp add: plain_request_def header_get_def)

end
