(* ===== verification/Scan_Race.thy ===== *)
theory Scan_Race
  imports Pulse_Scan Balancers
begin

text \<open>
  The health checker's two goroutines: the ticker that runs \<open>check\<close> and the config watcher
  that calls \<open>SetAll\<close>. \<open>PulseScan\<close> has no lock of its own, so a reload can fall
  between two iterations of a running round (each of which waits up to two seconds for a ping).
  \<open>scan_step\<close> is that interleaving; the addresses of the running round are those of the
  slice it started from, as Go evaluates the \<open>range\<close> expression once.
\<close>

record scan_sys =
  sc_ps :: pulse_scan
  sc_lb :: lb
  sc_check :: "check_state option"

inductive scan_step :: "scan_sys \<Rightarrow> scan_sys \<Rightarrow> bool" where
  tick: "sc_check s = None \<Longrightarrow> scan_step s (s\<lparr>sc_check := Some (check_start (sc_ps s))\<rparr>)"
| visit: "sc_check s = Some cs \<Longrightarrow> cs_todo cs \<noteq> [] \<Longrightarrow>
    check_visit p (sc_ps s) cs = (ps', cs', es) \<Longrightarrow>
    scan_step s (s\<lparr>sc_ps := ps', sc_check := Some cs'\<rparr>)"
| finish: "sc_check s = Some cs \<Longrightarrow> cs_todo cs = [] \<Longrightarrow>
    scan_step s (s\<lparr>sc_lb := check_finish lb_SetBackends (sc_lb s) cs, sc_check := None\<rparr>)"
| reload: "ps_SetAll lb_SetBackends (sc_ps s) (sc_lb s) new = (ps', b') \<Longrightarrow>
    scan_step s (s\<lparr>sc_ps := ps', sc_lb := b'\<rparr>)"

definition scan_init :: "string \<Rightarrow> addr list \<Rightarrow> string \<Rightarrow> int64 \<Rightarrow> lb \<Rightarrow> scan_sys" where
  "scan_init name as protocol interval b =
     \<lparr>sc_ps = ps_New name as protocol interval, sc_lb = b, sc_check = None\<rparr>"

inductive_cases tick_E: "scan_step s t"

section \<open>Without a reload in the middle\<close>

text \<open>The steps of one undisturbed round are the function \<open>ps_check\<close>.\<close>

lemma check_loop_steps:
  assumes "sc_check s = Some cs" "length (cs_todo cs) = n"
    "check_loop n env i (sc_ps s) cs = (ps', cs', es)"
  shows "scan_step\<^sup>*\<^sup>* s (s\<lparr>sc_ps := ps', sc_check := Some cs'\<rparr>) \<and> cs_todo cs' = []"
  using assms
proof (induction n arbitrary: s cs i es)
  case (Suc n)
  then obtain a rest where todo: "cs_todo cs = a # rest" by (cases "cs_todo cs") auto
  obtain ps1 cs1 es1 where v: "check_visit (env i) (sc_ps s) cs = (ps1, cs1, es1)" by (metis prod_cases3)
  obtain es2 where l: "check_loop n env (Suc i) ps1 cs1 = (ps', cs', es2)"
    using Suc.prems(3) v by (auto split: prod.splits)
  let ?t = "s\<lparr>sc_ps := ps1, sc_check := Some cs1\<rparr>"
  have "scan_step s ?t" using Suc.prems(1) todo v by (intro scan_step.visit) auto
  moreover have "scan_step\<^sup>*\<^sup>* ?t (?t\<lparr>sc_ps := ps', sc_check := Some cs'\<rparr>) \<and> cs_todo cs' = []"
    using Suc.prems(2) todo check_visit_Cons(2)[OF todo v] l by (intro Suc.IH) auto
  ultimately show ?case by (auto intro: converse_rtranclp_into_rtranclp)
next
  case 0
  then have eq: "s\<lparr>sc_ps := ps', sc_check := Some cs'\<rparr> = s" by (cases s) auto
  show ?case using 0 unfolding eq by simp
qed

lemma check_is_steps:
  assumes "sc_check s = None" "ps_check lb_SetBackends env (sc_ps s) (sc_lb s) = (ps', b', es)"
  shows "scan_step\<^sup>*\<^sup>* s (s\<lparr>sc_ps := ps', sc_lb := b'\<rparr>)"
proof -
  let ?s1 = "s\<lparr>sc_check := Some (check_start (sc_ps s))\<rparr>"
  obtain cs where l: "check_loop (length (ps_all (sc_ps s))) env 0 (sc_ps s) (check_start (sc_ps s)) = (ps', cs, es)"
    and b': "b' = check_finish lb_SetBackends (sc_lb s) cs"
    using assms(2) by (auto simp: ps_check_def split: prod.splits)
  let ?s2 = "s\<lparr>sc_ps := ps', sc_check := Some cs\<rparr>"
  have "scan_step s ?s1" using assms(1) by (rule scan_step.tick)
  moreover have "scan_step\<^sup>*\<^sup>* ?s1 (?s1\<lparr>sc_ps := ps', sc_check := Some cs\<rparr>) \<and> cs_todo cs = []"
    using l by (intro check_loop_steps[of _ "check_start (sc_ps s)"]) (auto simp: check_start_def)
  moreover have "scan_step ?s2 (?s2\<lparr>sc_lb := check_finish lb_SetBackends (sc_lb ?s2) cs, sc_check := None\<rparr>)"
    using calculation(2) by (intro scan_step.finish) auto
  moreover have "?s2\<lparr>sc_lb := check_finish lb_SetBackends (sc_lb ?s2) cs, sc_check := None\<rparr> = s\<lparr>sc_ps := ps', sc_lb := b'\<rparr>"
    using assms(1) b' by simp
  ultimately have "scan_step\<^sup>*\<^sup>* s (?s1\<lparr>sc_ps := ps', sc_check := Some cs\<rparr>)"
    and last: "scan_step ?s2 (s\<lparr>sc_ps := ps', sc_lb := b'\<rparr>)"
    by (metis converse_rtranclp_into_rtranclp, metis)
  moreover have "?s1\<lparr>sc_ps := ps', sc_check := Some cs\<rparr> = ?s2" by simp
  ultimately show ?thesis by (metis rtranclp.rtrancl_into_rtrancl)
qed

section \<open>With one\<close>

text \<open>
  A reload that arrives between two visits: the round goes on over the old addresses, finds the
  second one "recovered" (its entry was deleted), and pushes the old list into the balancer.
\<close>

definition up_probe :: probe where
  "up_probe = \<lparr>http_get = Some 200, tcp_dial = True, udp_dial = True, udp_write = True, udp_read = True\<rparr>"

definition race_start :: scan_sys where
  "race_start = scan_init ''gate'' [''a'', ''b''] ''http'' 5000000000
     (NewFromConfig [''a'', ''b''] [] ''round_robin'')"

definition race_end :: scan_sys where
  "race_end = (
     let s1 = race_start\<lparr>sc_check := Some (check_start (sc_ps race_start))\<rparr>;
         (ps2, cs2, _) = check_visit up_probe (sc_ps s1) (check_start (sc_ps race_start));
         (ps3, b3) = ps_SetAll lb_SetBackends ps2 (sc_lb s1) [''c''];
         (ps4, cs4, _) = check_visit up_probe ps3 cs2
     in \<lparr>sc_ps = ps4, sc_lb = check_finish lb_SetBackends b3 cs4, sc_check = None\<rparr>)"

lemma five_steps:
  "r a b \<Longrightarrow> r b c \<Longrightarrow> r c d \<Longrightarrow> r d e \<Longrightarrow> r e f \<Longrightarrow> r\<^sup>*\<^sup>* a f"
  by (intro converse_rtranclp_into_rtranclp[of r a b] converse_rtranclp_into_rtranclp[of r b c]
      converse_rtranclp_into_rtranclp[of r c d] converse_rtranclp_into_rtranclp[of r d e] r_into_rtranclp)

lemma race_reached: "scan_step\<^sup>*\<^sup>* race_start race_end"
proof -
  let ?cs1 = "check_start (sc_ps race_start)"
  let ?s1 = "race_start\<lparr>sc_check := Some ?cs1\<rparr>"
  obtain ps2 cs2 e2 where v2: "check_visit up_probe (sc_ps ?s1) ?cs1 = (ps2, cs2, e2)" by (metis prod_cases3)
  obtain ps3 b3 where v3: "ps_SetAll lb_SetBackends ps2 (sc_lb ?s1) [''c''] = (ps3, b3)" by fastforce
  obtain ps4 cs4 e4 where v4: "check_visit up_probe ps3 cs2 = (ps4, cs4, e4)" by (metis prod_cases3)
  have todo1: "cs_todo ?cs1 = [''a'', ''b'']" by (simp add: check_start_def race_start_def scan_init_def ps_New_def)
  have todo2: "cs_todo cs2 = [''b'']" using check_visit_Cons(2)[OF todo1 v2] .
  have todo4: "cs_todo cs4 = []" using check_visit_Cons(2)[OF todo2 v4] .
  let ?s2 = "?s1\<lparr>sc_ps := ps2, sc_check := Some cs2\<rparr>"
  let ?s3 = "?s2\<lparr>sc_ps := ps3, sc_lb := b3\<rparr>"
  let ?s4 = "?s3\<lparr>sc_ps := ps4, sc_check := Some cs4\<rparr>"
  let ?s5 = "?s4\<lparr>sc_lb := check_finish lb_SetBackends (sc_lb ?s4) cs4, sc_check := None\<rparr>"
  have "scan_step race_start ?s1" by (rule scan_step.tick) (simp add: race_start_def scan_init_def)
  moreover have "scan_step ?s1 ?s2" using todo1 v2 by (intro scan_step.visit) auto
  moreover have "scan_step ?s2 ?s3" using v3 by (intro scan_step.reload) auto
  moreover have "scan_step ?s3 ?s4" using todo2 v4 by (intro scan_step.visit[of _ cs2]) auto
  moreover have "scan_step ?s4 ?s5" using todo4 by (intro scan_step.finish) auto
  ultimately have "scan_step\<^sup>*\<^sup>* race_start ?s5" by (rule five_steps)
  moreover have "?s5 = race_end" using v2 v3 v4 by (simp add: race_end_def)
  ultimately show ?thesis by metis
qed

lemma race_end_value:
  "sc_check race_end = None" "ps_all (sc_ps race_end) = [''c'']"
  "lb_addrs (sc_lb race_end) = [''a'', ''b'']" "ps_Healthy (sc_ps race_end) ''c''"
  "ps_protocol (sc_ps race_end) = ''http''"
  by (simp_all add: race_end_def race_start_def scan_init_def ps_New_def check_start_def check_visit_def
      ps_SetAll_def check_finish_def Let_def ps_Healthy_def add_new_def drop_removed_def up_probe_def
      ps_ping_def pingHTTP_def NewFromConfig_def rr_New_def rr_SetBackends_def)

text \<open>And it stays: rounds in which the new address answers find nothing changed and push nothing.\<close>

lemma race_persists:
  assumes "ps_all ps = [a]" "ps_Healthy ps a" "ps_ping ps (env 0)"
    "ps_check push env ps b = (ps', b', es)"
  shows "b' = b"
proof -
  have "distinct (ps_all ps)" using assms(1) by simp
  from ps_check_round[OF this assms(4)] assms(1-3) show ?thesis by auto
qed

end
