(* ===== verification/Health_Events.thy ===== *)
theory Health_Events
  imports Mission_Control
begin

text \<open>
  The events of the health checker as a record of its life: \<open>main\<close> stores each one in the
  database. Reading them back in order, from the health at some moment on, gives the health of every
  watched backend at the end, and no event says what was already so.
\<close>

section \<open>Reading events back\<close>

text \<open>\<open>None\<close>: an event that changes nothing.\<close>

fun replay :: "scan_event list \<Rightarrow> (addr \<Rightarrow> bool) \<Rightarrow> (addr \<Rightarrow> bool) option" where
  "replay [] h = Some h"
| "replay ((g, kind, a) # es) h =
     (if h a = (kind = ''backend_up'') then None else replay es (h(a := kind = ''backend_up'')))"

text \<open>Rounds of one checker, with all their events in order.\<close>

fun run_rounds ::
  "('b \<Rightarrow> addr list \<Rightarrow> 'b) \<Rightarrow> (nat \<Rightarrow> probe) list \<Rightarrow> pulse_scan \<Rightarrow> 'b \<Rightarrow> pulse_scan \<times> 'b \<times> scan_event list" where
  "run_rounds push [] ps b = (ps, b, [])"
| "run_rounds push (env # envs) ps b =
     (let (ps1, b1, es) = ps_check push env ps b; (ps2, b2, more) = run_rounds push envs ps1 b1
      in (ps2, b2, es @ more))"

lemma replay_append: "replay (es @ es') h = Option.bind (replay es h) (replay es')"
proof (induction es arbitrary: h)
  case (Cons e es)
  obtain g kind a where "e = (g, kind, a)" by (cases e)
  then show ?case
    by (cases "h a = (kind = ''backend_up'')")
      (simp_all only: replay.simps append_Cons Cons.IH if_True if_False Option.bind.simps simp_thms)
qed simp

definition health_event :: "string \<Rightarrow> (addr \<Rightarrow> bool) \<Rightarrow> addr \<Rightarrow> scan_event" where
  "health_event name new a = (name, if new a then ''backend_up'' else ''backend_down'', a)"

lemma replay_health_event [simp]:
  "replay (health_event name new a # es) h = (if h a = new a then None else replay es (h(a := new a)))"
  by (simp add: health_event_def)

lemma replay_changes:
  assumes "distinct as" "\<forall>a\<in>set as. new a \<noteq> h a"
  shows "replay (map (health_event name new) as) h = Some (\<lambda>a. if a \<in> set as then new a else h a)"
  using assms
proof (induction as arbitrary: h)
  case (Cons x as)
  have "replay (map (health_event name new) as) (h(x := new x)) =
      Some (\<lambda>a. if a \<in> set as then new a else (h(x := new x)) a)"
    using Cons.prems by (intro Cons.IH) auto
  moreover have "h x \<noteq> new x" using Cons.prems(2) by auto
  ultimately show ?case using Cons.prems(1) by (simp add: fun_eq_iff)
qed simp

lemma round_replay:
  assumes "distinct (ps_all ps)" "ps_eventFunc ps" "ps_check push env ps b = (ps', b', es)"
    "\<forall>a\<in>set (ps_all ps). h a = ps_Healthy ps a"
  shows "\<exists>h'. replay es h = Some h' \<and> (\<forall>a\<in>set (ps_all ps). h' a = ps_Healthy ps' a)"
    and "\<forall>e\<in>set es. \<exists>a\<in>set (ps_all ps). e = health_event (ps_name ps) (ps_Healthy ps') a"
proof -
  let ?changed = "filter (\<lambda>a. ps_Healthy ps' a \<noteq> ps_Healthy ps a) (ps_all ps)"
  have es: "es = map (health_event (ps_name ps) (ps_Healthy ps')) ?changed"
    using ps_check_round(5)[OF assms(1,3)] assms(2) by (simp add: health_event_def)
  have "replay es h = Some (\<lambda>a. if a \<in> set ?changed then ps_Healthy ps' a else h a)"
    unfolding es using assms(1,4) by (intro replay_changes) auto
  then show "\<exists>h'. replay es h = Some h' \<and> (\<forall>a\<in>set (ps_all ps). h' a = ps_Healthy ps' a)"
    using assms(4) by auto
  show "\<forall>e\<in>set es. \<exists>a\<in>set (ps_all ps). e = health_event (ps_name ps) (ps_Healthy ps') a"
    unfolding es by auto
qed

lemma rounds_replay:
  assumes "distinct (ps_all ps)" "ps_eventFunc ps" "run_rounds push envs ps b = (ps', b', es)"
    "\<forall>a\<in>set (ps_all ps). h a = ps_Healthy ps a"
  shows "\<exists>h'. replay es h = Some h' \<and> (\<forall>a\<in>set (ps_all ps). h' a = ps_Healthy ps' a)"
  using assms
proof (induction envs arbitrary: ps b es h)
  case (Cons env envs)
  obtain ps1 b1 es1 where c: "ps_check push env ps b = (ps1, b1, es1)" by (metis prod_cases3)
  obtain more where more: "run_rounds push envs ps1 b1 = (ps', b', more)" "es = es1 @ more"
    using Cons.prems(3) c by (auto split: prod.splits)
  note r = ps_check_round[OF Cons.prems(1) c]
  from round_replay(1)[OF Cons.prems(1,2) c Cons.prems(4)] obtain h1 where
    h1: "replay es1 h = Some h1" "\<forall>a\<in>set (ps_all ps1). h1 a = ps_Healthy ps1 a" unfolding r(2) by blast
  have "distinct (ps_all ps1)" "ps_eventFunc ps1" using Cons.prems(1,2) r(2,8) by simp_all
  from Cons.IH[OF this more(1) h1(2)] h1(1) show ?case unfolding more(2) r(2) by (simp add: replay_append)
qed auto

lemma start_gate_events: "ps_eventFunc (gt_ps (start_gate True g))"
  by (simp add: start_gate_def Let_def ps_SetEventFunc_def)

lemma start_gate_healthy: "a \<in> set (gate_addrs g) \<Longrightarrow> ps_Healthy (gt_ps (start_gate store g)) a"
  by (simp add: ps_Healthy_def upd_all_const_key)

text \<open>
  A reload reports nothing, so the record has a gap there: a backend that is taken out while it is
  down and put back is recorded healthy, although the last event about it says it is down.
\<close>

lemma reload_forgets_down:
  assumes "scan_sync lb_addrs ps b" "a \<in> set (ps_all ps)" "\<not> ps_Healthy ps a" "a \<notin> set as" "a \<in> set as'"
    "ps_SetAll lb_SetBackends ps b as = (ps1, b1)" "ps_SetAll lb_SetBackends ps1 b1 as' = (ps2, b2)"
  shows "ps_Healthy ps2 a"
proof -
  have "dom (ps_healthy ps) = set (ps_all ps)" using assms(1) by (simp add: scan_sync_def)
  note one = ps_SetAll_Healthy[OF this assms(6)]
  have "dom (ps_healthy ps1) = set (ps_all ps1)" using one(2,3) by simp
  from ps_SetAll_Healthy(1)[OF this assms(7)] one(3) assms(4,5) show ?thesis by simp
qed

end
