(* ===== verification/Health_Props.thy ===== *)
theory Health_Props
  imports Scan_Race Health_Events
begin

text \<open>
  The properties of the health checker and of configuration reloads: what a round records and
  reports, the invariant between the health map and the balancer over any sequence of rounds and
  reloads, what a reload does to a running gate, and what happens when the two interleave.
\<close>

lemmas run_scan_sync_lb = balancer.run_scan_sync[OF lbb.balancer_axioms]
lemmas sync_next_lb = balancer.sync_next[OF lbb.balancer_axioms]
lemmas check_next_answered_lb = balancer.check_next_answered[OF lbb.balancer_axioms]

text \<open>A round over two backends, the first down and the second up, to instantiate properties with.\<close>

definition down_probe :: probe where
  "down_probe = \<lparr>http_get = None, tcp_dial = False, udp_dial = True, udp_write = True, udp_read = False\<rparr>"

definition first_down :: "nat \<Rightarrow> probe" where
  "first_down k = (if k = 0 then down_probe else up_probe)"

definition two_backends :: jump_gate where
  "two_backends =
     \<lparr>jg_Name = ''g'', jg_Listen = '':1'', jg_Protocol = ''http'', jg_OrbitalRouter = ''round_robin'',
      jg_TLS = \<lparr>tls_Mode = '''', tls_Domain = '''', tls_CertFile = '''', tls_KeyFile = ''''\<rparr>,
      jg_FluxShield = \<lparr>fc_RequestsPerSecond = Fin 0, fc_Burst = 0\<rparr>,
      jg_StarSystems = [\<lparr>ss_Address = ''a:1'', ss_Weight = 1\<rparr>, \<lparr>ss_Address = ''b:1'', ss_Weight = 1\<rparr>]\<rparr>"

lemma two_backends_addrs: "gate_addrs two_backends = [''a:1'', ''b:1'']"
  by (simp add: gate_addrs_def two_backends_def)

section \<open>Rounds\<close>

text \<open>C11: After a round every watched backend is recorded as its probe came out; the balancer got the
  healthy ones, in order, if any state changed and nothing otherwise; and exactly the changes are
  reported, in order, with the right direction.\<close>

theorem health_round_exact:
  assumes "distinct (ps_all ps)" "ps_check lb_SetBackends env ps b = (ps', b', es)"
  shows "(\<forall>k < length (ps_all ps). ps_Healthy ps' (ps_all ps ! k) = ps_ping ps (env k)) \<and>
    b' = (if \<exists>a \<in> set (ps_all ps). ps_Healthy ps' a \<noteq> ps_Healthy ps a
          then lb_SetBackends b (filter (ps_Healthy ps') (ps_all ps)) else b) \<and>
    es = (if ps_eventFunc ps
          then map (\<lambda>a. (ps_name ps, (if ps_Healthy ps' a then ''backend_up'' else ''backend_down''), a))
                 (filter (\<lambda>a. ps_Healthy ps' a \<noteq> ps_Healthy ps a) (ps_all ps))
          else [])"
  using ps_check_round(1,4,5)[OF assms] by blast

theorem health_round_exact_witness:
  "\<not> ps_Healthy (fst (ps_check lb_SetBackends first_down (gt_ps (start_gate True two_backends))
      (gt_lb (start_gate True two_backends)))) ''a:1''"
proof -
  let ?g = "start_gate True two_backends"
  obtain ps' b' es where c: "ps_check lb_SetBackends first_down (gt_ps ?g) (gt_lb ?g) = (ps', b', es)"
    by (metis prod_cases3)
  have all: "ps_all (gt_ps ?g) = [''a:1'', ''b:1'']" by (simp add: two_backends_addrs)
  then have "distinct (ps_all (gt_ps ?g))" by simp
  from health_round_exact[OF this c] have "ps_Healthy ps' (ps_all (gt_ps ?g) ! 0) = ps_ping (gt_ps ?g) (first_down 0)"
    unfolding all by auto
  moreover have "ps_ping (gt_ps ?g) (first_down 0) = False" by code_simp
  ultimately show ?thesis unfolding c all by simp
qed

text \<open>The events of any rounds from the start of a gate, read back in order over backends that are all
  up, give the health of every watched backend at the end, and every one of them is a change: the stored
  events are a complete record without repetitions, as long as nothing is reloaded.\<close>

lemma health_events_replay:
  assumes "distinct (gate_addrs g)"
    "run_rounds lb_SetBackends envs (gt_ps (start_gate True g)) (gt_lb (start_gate True g)) = (ps, b, es)"
  shows "\<exists>h. replay es (\<lambda>_. True) = Some h \<and> (\<forall>a\<in>set (gate_addrs g). h a = ps_Healthy ps a)"
  using rounds_replay[OF _ start_gate_events assms(2), of "\<lambda>_. True"] assms(1) start_gate_healthy[of _ g True]
  by simp

theorem health_events_replay_witness:
  "\<exists>ps b es. run_rounds lb_SetBackends [first_down, \<lambda>_. down_probe, first_down]
       (gt_ps (start_gate True two_backends)) (gt_lb (start_gate True two_backends)) = (ps, b, es) \<and>
     es = [(''g'', ''backend_down'', ''a:1''), (''g'', ''backend_down'', ''b:1''), (''g'', ''backend_up'', ''b:1'')] \<and>
     ps_Healthy ps ''b:1'' \<and> \<not> ps_Healthy ps ''a:1''"
proof -
  let ?x = "run_rounds lb_SetBackends [first_down, \<lambda>_. down_probe, first_down]
     (gt_ps (start_gate True two_backends)) (gt_lb (start_gate True two_backends))"
  let ?es = "[(''g'', ''backend_down'', ''a:1''), (''g'', ''backend_down'', ''b:1''), (''g'', ''backend_up'', ''b:1'')]"
  obtain ps b es where x: "?x = (ps, b, es)" by (metis prod_cases3)
  have "snd (snd ?x) = ?es" by code_simp
  then have es: "es = ?es" unfolding x by simp
  from health_events_replay[OF _ x] have "ps_Healthy ps ''b:1'' \<and> \<not> ps_Healthy ps ''a:1''"
    by (auto simp: two_backends_addrs es)
  with x es show ?thesis by blast
qed

text \<open>Right after a round, the address the balancer hands out is one whose probe of that very round
  succeeded.\<close>

lemma next_answered_probe:
  assumes "scan_sync lb_addrs ps b" "ps_check lb_SetBackends env ps b = (ps', b', es)" "fst (lb_Next b') \<noteq> ''''"
  shows "\<exists>k < length (ps_all ps). ps_all ps ! k = fst (lb_Next b') \<and> ps_ping ps (env k)"
  using check_next_answered_lb[OF assms] .

theorem next_answered_probe_witness:
  "fst (lb_Next (fst (snd (ps_check lb_SetBackends first_down (gt_ps (start_gate True two_backends))
      (gt_lb (start_gate True two_backends)))))) = ''b:1''"
proof -
  let ?g = "start_gate True two_backends"
  obtain ps' b' es where c: "ps_check lb_SetBackends first_down (gt_ps ?g) (gt_lb ?g) = (ps', b', es)"
    by (metis prod_cases3)
  have sync: "scan_sync lb_addrs (gt_ps ?g) (gt_lb ?g)" by (rule start_gate_sync) (simp add: two_backends_addrs)
  have "fst (lb_Next (fst (snd (ps_check lb_SetBackends first_down (gt_ps ?g) (gt_lb ?g))))) \<noteq> ''''" by code_simp
  then have "fst (lb_Next b') \<noteq> ''''" unfolding c by simp
  from next_answered_probe[OF sync c this] obtain k where
    k: "k < Suc (Suc 0)" "[''a:1'', ''b:1''] ! k = fst (lb_Next b')" "ps_ping (gt_ps ?g) (first_down k)"
    by (auto simp: two_backends_addrs)
  have "\<not> ps_ping (gt_ps ?g) (first_down 0)" by code_simp
  with k(3) have "k \<noteq> 0" by metis
  with k(1) have "k = 1" by simp
  with k(2) show ?thesis unfolding c by simp
qed

section \<open>Rounds and reloads\<close>

text \<open>From the start of a gate, after any sequence of rounds and reloads, the balancer serves
  exactly the watched backends recorded as healthy, in the configured order; so what it hands out is
  watched and healthy.\<close>

lemma balancer_follows_health:
  assumes "distinct (gate_addrs g)" "distinct_reloads ops"
    "run_scan lb_SetBackends ops (gt_ps (start_gate store g)) (gt_lb (start_gate store g)) = (ps, b)"
  shows "lb_addrs b = filter (ps_Healthy ps) (ps_all ps) \<and>
    (fst (lb_Next b) \<noteq> '''' \<longrightarrow> fst (lb_Next b) \<in> set (ps_all ps) \<and> ps_Healthy ps (fst (lb_Next b)))"
proof -
  have "scan_sync lb_addrs ps b"
    by (rule run_scan_sync_lb[OF start_gate_sync[OF assms(1)] assms(2,3)])
  then show ?thesis using sync_next_lb[of ps b] by (simp add: scan_sync_def)
qed

theorem balancer_follows_health_witness:
  "lb_addrs (snd (run_scan lb_SetBackends [ScanRound first_down, Reload [''c:1'', ''a:1'', ''b:1'']]
      (gt_ps (start_gate True two_backends)) (gt_lb (start_gate True two_backends)))) = [''c:1'', ''b:1'']"
proof -
  let ?g = "start_gate True two_backends"
  let ?ops = "[ScanRound first_down, Reload [''c:1'', ''a:1'', ''b:1'']]"
  obtain ps b where r: "run_scan lb_SetBackends ?ops (gt_ps ?g) (gt_lb ?g) = (ps, b)" by fastforce
  have "distinct_reloads ?ops" by (simp add: distinct_reloads_def)
  from balancer_follows_health[OF _ this r]
  have "lb_addrs b = filter (ps_Healthy ps) (ps_all ps)" by (simp add: two_backends_addrs)
  moreover have "filter (ps_Healthy (fst (run_scan lb_SetBackends ?ops (gt_ps ?g) (gt_lb ?g))))
      (ps_all (fst (run_scan lb_SetBackends ?ops (gt_ps ?g) (gt_lb ?g)))) = [''c:1'', ''b:1'']"
    by code_simp
  ultimately show ?thesis unfolding r by simp
qed

text \<open>C12: A reload gives the running gate of that name the new list: the checker watches it, the
  balancer serves at once those of its addresses that are new or were healthy (a dead one stays out
  until it answers), removed addresses are gone, and nothing else of the gate changes.\<close>

theorem reload_applies:
  assumes "gates_sync gs" "cf_JumpGates cfg = us @ ng # vs" "reg (jg_Name ng) = Some i" "i < length gs"
    "\<forall>g\<in>set (us @ vs). reg (jg_Name g) \<noteq> Some i"
  shows "ps_all (gt_ps (reload reg cfg gs ! i)) = gate_addrs ng \<and>
    lb_addrs (gt_lb (reload reg cfg gs ! i)) =
      filter (\<lambda>a. a \<in> set (ps_all (gt_ps (gs ! i))) \<longrightarrow> ps_Healthy (gt_ps (gs ! i)) a) (gate_addrs ng) \<and>
    gt_listeners (reload reg cfg gs ! i) = gt_listeners (gs ! i) \<and>
    ps_protocol (gt_ps (reload reg cfg gs ! i)) = ps_protocol (gt_ps (gs ! i))"
proof -
  let ?g = "gs ! i"
  obtain ps b where p: "ps_SetAll lb_SetBackends (gt_ps ?g) (gt_lb ?g) (gate_addrs ng) = (ps, b)" by fastforce
  have r: "reload reg cfg gs ! i = ?g\<lparr>gt_ps := ps, gt_lb := b\<rparr>"
    using reload_unique[OF assms(2-5)] by (simp add: p)
  have "scan_sync lb_addrs (gt_ps ?g) (gt_lb ?g)" using assms(1,4) by (simp add: gates_sync_def)
  then have "dom (ps_healthy (gt_ps ?g)) = set (ps_all (gt_ps ?g))" by (simp add: scan_sync_def)
  note s = ps_SetAll_Healthy[OF this p]
  have "filter (ps_Healthy ps) (gate_addrs ng) =
      filter (\<lambda>a. a \<in> set (ps_all (gt_ps ?g)) \<longrightarrow> ps_Healthy (gt_ps ?g) a) (gate_addrs ng)"
    by (rule filter_cong) (auto simp: s(1))
  then show ?thesis by (simp add: r s)
qed

definition one_more :: jump_gate where
  "one_more = two_backends\<lparr>jg_StarSystems := [\<lparr>ss_Address = ''b:1'', ss_Weight = 1\<rparr>, \<lparr>ss_Address = ''c:1'', ss_Weight = 1\<rparr>]\<rparr>"

definition reloaded_config :: config where
  "reloaded_config =
     \<lparr>cf_MissionControl = \<lparr>mc_Port = 0, mc_Secret = ''''\<rparr>, cf_JumpGates = [one_more],
      cf_Metrics = \<lparr>mcf_Enabled = False, mcf_Port = 0\<rparr>,
      cf_Oracle = \<lparr>oc_Enabled = False, oc_APIKey = '''', oc_Model = '''', oc_IntervalSeconds = 0,
        oc_ThreatDetection = False, oc_ScalingAdvisor = False, oc_ErrorRateThreshold = Fin 0,
        oc_P95LatencyThreshold = Fin 0\<rparr>\<rparr>"

theorem reload_applies_witness:
  "lb_addrs (gt_lb (reload (gate_registry [two_backends]) reloaded_config [start_gate True two_backends] ! 0)) =
    [''b:1'', ''c:1'']"
proof -
  have sync: "gates_sync [start_gate True two_backends]"
    using start_gate_sync[of two_backends True] by (simp add: gates_sync_def two_backends_addrs del: start_gate_simps)
  have reg: "gate_registry [two_backends] (jg_Name one_more) = Some 0" by code_simp
  have "filter (\<lambda>a. a \<in> set (ps_all (gt_ps ([start_gate True two_backends] ! 0))) \<longrightarrow>
      ps_Healthy (gt_ps ([start_gate True two_backends] ! 0)) a) (gate_addrs one_more) = [''b:1'', ''c:1'']"
    by code_simp
  with reload_applies[of "[start_gate True two_backends]" reloaded_config "[]" one_more "[]"
      "gate_registry [two_backends]" 0, OF sync _ reg] show ?thesis
    by (simp add: reloaded_config_def)
qed

text \<open>When two gates have the same name, the earlier one is never reloaded: whatever the new
  configuration says, it keeps its backends.\<close>

lemma shadowed_gate_not_reloaded:
  assumes "i < j" "j < length gs0" "jg_Name (gs0 ! i) = jg_Name (gs0 ! j)"
  shows "reload (gate_registry gs0) cfg gs ! i = gs ! i"
  by (rule reload_other) (use assms in \<open>auto simp: gate_registry_last\<close>)

theorem shadowed_gate_not_reloaded_witness:
  "reload (gate_registry [two_backends, two_backends]) reloaded_config
      [start_gate True two_backends, start_gate True two_backends] ! 0 = start_gate True two_backends"
  using shadowed_gate_not_reloaded[of 0 1 "[two_backends, two_backends]"] by simp


end
