(* ===== verification/Store_Tables.thy ===== *)
theory Store_Tables
  imports Mission_Control "HOL-Library.Sublist"
begin

text \<open>
  The two tables of the store that the program only writes: \<open>request_stats\<close>, one row per gate and
  flush tick, and \<open>events\<close>, one row per event. Both are used through one contract, a table that rows are
  appended to (\<open>append_table\<close>); \<open>tables_ok\<close> says what the SQL statements do to the two tables.
\<close>

section \<open>Appending\<close>

locale append_table =
  fixes put :: "'x \<Rightarrow> 'db \<Rightarrow> string option \<times> 'db"
    and row :: "'x \<Rightarrow> 'row"
    and rows :: "'db \<Rightarrow> 'row list"
  assumes put_ok: "put x db = (None, db') \<Longrightarrow> rows db' = rows db @ [row x]"
    and put_err: "put x db = (Some e, db') \<Longrightarrow> rows db' = rows db"
begin

definition put_all :: "'x list \<Rightarrow> 'db \<Rightarrow> 'db" where
  "put_all xs db = fold (\<lambda>x db. snd (put x db)) xs db"

lemma put_all_simps [simp]:
  "put_all [] db = db" "put_all (x # xs) db = put_all xs (snd (put x db))"
  by (simp_all add: put_all_def)

text \<open>Those that fail are missing, the others are there in order.\<close>

lemma put_all_subseq:
  "\<exists>done. subseq done xs \<and> rows (put_all xs db) = rows db @ map row done"
proof (induction xs arbitrary: db)
  case (Cons x xs)
  obtain r db1 where p: "put x db = (r, db1)" by fastforce
  from Cons.IH[of db1] obtain rest where
    rest: "subseq rest xs" "rows (put_all xs db1) = rows db1 @ map row rest" by blast
  show ?case
  proof (cases r)
    case None
    with put_ok[of x db db1] p rest show ?thesis by (intro exI[of _ "x # rest"]) simp
  next
    case (Some e)
    with put_err[of x db e db1] p rest show ?thesis by (intro exI[of _ rest]) auto
  qed
qed (intro exI[of _ "[]"]; simp)

lemma put_all_rows:
  "(\<And>x db. x \<in> set xs \<Longrightarrow> fst (put x db) = None) \<Longrightarrow> rows (put_all xs db) = rows db @ map row xs"
proof (induction xs arbitrary: db)
  case (Cons x xs)
  obtain db1 where p: "put x db = (None, db1)" using Cons.prems[of x db] by (cases "put x db") auto
  have "rows (put_all xs db1) = rows db1 @ map row xs" by (rule Cons.IH) (use Cons.prems in auto)
  with put_ok[OF p] p show ?case by simp
qed simp

end

section \<open>The tables\<close>

text \<open>A REAL column holds no NaN: SQLite stores NULL for it.\<close>

record stat_row =
  sr_ts :: int64
  sr_gate :: string
  sr_req :: int64
  sr_err :: int64
  sr_p95 :: "f64 option"

record event_row =
  er_ts :: int64
  er_gate :: string
  er_kind :: string
  er_detail :: string

definition sql_real :: "f64 \<Rightarrow> f64 option" where
  "sql_real x = (case x of NaN \<Rightarrow> None | _ \<Rightarrow> Some x)"

definition stat_of :: "int64 \<times> metrics_snapshot \<Rightarrow> stat_row" where
  "stat_of x = (case x of (now, s) \<Rightarrow>
     \<lparr>sr_ts = now, sr_gate = ms_Gate s, sr_req = ms_ReqTotal s, sr_err = ms_ErrTotal s, sr_p95 = sql_real (ms_P95Ms s)\<rparr>)"

definition event_of :: "int64 \<times> scan_event \<Rightarrow> event_row" where
  "event_of x = (case x of (now, g, k, d) \<Rightarrow> \<lparr>er_ts = now, er_gate = g, er_kind = k, er_detail = d\<rparr>)"

definition tables_ok :: "'db engine \<Rightarrow> ('db \<Rightarrow> stat_row list) \<Rightarrow> ('db \<Rightarrow> event_row list) \<Rightarrow> bool" where
  "tables_ok E stats events \<longleftrightarrow>
     (\<forall>st db e db'. sq_exec E st db = (Some e, db') \<longrightarrow> stats db' = stats db \<and> events db' = events db) \<and>
     (\<forall>now g a b p db db'. sq_exec E (Insert_stats now g a b p) db = (None, db') \<longrightarrow>
        stats db' = stats db @ [\<lparr>sr_ts = now, sr_gate = g, sr_req = a, sr_err = b, sr_p95 = sql_real p\<rparr>] \<and>
        events db' = events db) \<and>
     (\<forall>now g k d db db'. sq_exec E (Insert_event now g k d) db = (None, db') \<longrightarrow>
        events db' = events db @ [\<lparr>er_ts = now, er_gate = g, er_kind = k, er_detail = d\<rparr>] \<and> stats db' = stats db) \<and>
     (\<forall>now g k l s r a db db'. sq_exec E (Insert_signal now g k l s r a) db = (None, db') \<longrightarrow>
        stats db' = stats db \<and> events db' = events db)"

lemma tables_okD:
  assumes "tables_ok E stats events"
  shows "sq_exec E st db = (Some e, db') \<Longrightarrow> stats db' = stats db \<and> events db' = events db"
    and "sq_exec E (Insert_stats now g a b p) db = (None, db') \<Longrightarrow>
      stats db' = stats db @ [\<lparr>sr_ts = now, sr_gate = g, sr_req = a, sr_err = b, sr_p95 = sql_real p\<rparr>] \<and> events db' = events db"
    and "sq_exec E (Insert_event now g k d) db = (None, db') \<Longrightarrow>
      events db' = events db @ [\<lparr>er_ts = now, er_gate = g, er_kind = k, er_detail = d\<rparr>] \<and> stats db' = stats db"
    and "sq_exec E (Insert_signal now g k l s r ac) db = (None, db') \<Longrightarrow> stats db' = stats db \<and> events db' = events db"
  using assms unfolding tables_ok_def by (elim conjE, simp)+

lemma stats_provide:
  assumes "tables_ok E stats events"
  shows "append_table (\<lambda>(now, s). Flush E now s) stat_of stats"
  by unfold_locales (auto simp: Flush_def stat_of_def dest: tables_okD(1,2)[OF assms])

lemma events_provide:
  assumes "tables_ok E stats events"
  shows "append_table (\<lambda>(now, g, k, d). LogEvent E now g k d) event_of events"
  by unfold_locales (auto simp: LogEvent_def event_of_def dest: tables_okD(1,3)[OF assms])

section \<open>A flush tick\<close>

definition stamped :: "(nat \<Rightarrow> int64) \<Rightarrow> 'a list \<Rightarrow> (int64 \<times> 'a) list" where
  "stamped clock xs = zip (map clock [0..<length xs]) xs"

lemma stamped_simps [simp]:
  "stamped clock [] = []"
  "stamped clock (x # xs) = (clock 0, x) # stamped (\<lambda>k. clock (Suc k)) xs"
  by (simp_all add: stamped_def upt_conv_Cons map_Suc_upt[symmetric] comp_def del: upt_Suc)

lemma stamped_snd [simp]: "map snd (stamped clock xs) = xs"
  by (simp add: stamped_def)

lemma flush_all_puts:
  "flush_all E clock ss db = fold (\<lambda>x db. snd (case x of (now, s) \<Rightarrow> Flush E now s db)) (stamped clock ss) db"
  by (induction ss arbitrary: clock db) simp_all

text \<open>The rest of a tick writes to neither table.\<close>

lemma save_frame:
  assumes "tables_ok E stats events"
  shows "stats (snd (SaveSignal E now sig db)) = stats db" "events (snd (SaveSignal E now sig db)) = events db"
proof -
  obtain r db' where "SaveSignal E now sig db = (r, db')" by fastforce
  then have "stats db' = stats db \<and> events db' = events db"
    using tables_okD(1)[OF assms, of _ db _ db'] tables_okD(4)[OF assms]
    by (cases r) (auto simp: SaveSignal_def)
  then show "stats (snd (SaveSignal E now sig db)) = stats db" "events (snd (SaveSignal E now sig db)) = events db"
    using \<open>SaveSignal E now sig db = (r, db')\<close> by simp_all
qed

lemma Check_frame:
  assumes "\<And>sig db. f (snd (save sig db)) = f db"
  shows "f (snd (oracle_Check save snaps now w (ora, db))) = f db"
  using assms by (auto simp: oracle_Check_def analyze_def Let_def split: option.split sum.split prod.split)

lemma flush_frame:
  assumes "tables_ok E stats events"
  shows "events (flush_all E clock ss db) = events db"
proof (induction ss arbitrary: clock db)
  case (Cons s ss)
  obtain r db' where f: "Flush E (clock 0) s db = (r, db')" by fastforce
  then have "events db' = events db"
    using tables_okD(1)[OF assms, of _ db _ db'] tables_okD(2)[OF assms] by (cases r) (auto simp: Flush_def)
  with Cons f show ?case by simp
qed simp

lemma flush_tick_parts:
  assumes "tables_ok E stats events"
    "flush_tick E clock save_time check_time gateNames gather1 gather2 w (ora, db) = (ora', db')"
  shows "stats db' = stats (flush_all E clock (Snapshots gather1 gateNames) db)" "events db' = events db"
proof -
  let ?x = "flush_tick E clock save_time check_time gateNames gather1 gather2 w (ora, db)"
  have "stats (snd ?x) = stats (flush_all E clock (Snapshots gather1 gateNames) db)" "events (snd ?x) = events db"
    unfolding flush_tick_def Let_def prod.case
    by (simp_all add: Check_frame save_frame[OF assms(1)] flush_frame[OF assms(1)])
  with assms(2) show "stats db' = stats (flush_all E clock (Snapshots gather1 gateNames) db)" "events db' = events db"
    by simp_all
qed

text \<open>So a tick appends the rows of its snapshots, without those whose insert fails.\<close>

lemma flush_tick_subseq:
  assumes "tables_ok E stats events"
    "flush_tick E clock save_time check_time gateNames gather1 gather2 w (ora, db) = (ora', db')"
  shows "\<exists>done. subseq done (stamped clock (Snapshots gather1 gateNames)) \<and> stats db' = stats db @ map stat_of done"
    and "(\<And>now s d. fst (Flush E now s d) = None) \<Longrightarrow>
      stats db' = stats db @ map stat_of (stamped clock (Snapshots gather1 gateNames))"
proof -
  let ?put = "\<lambda>(now, s). Flush E now s" and ?xs = "stamped clock (Snapshots gather1 gateNames)"
  have table: "append_table ?put stat_of stats" by (rule stats_provide[OF assms(1)])
  have db': "stats db' = stats (append_table.put_all ?put ?xs db)"
    using flush_tick_parts[OF assms] unfolding append_table.put_all_def[OF table] flush_all_puts
    by (simp add: case_prod_beta)
  show "\<exists>done. subseq done ?xs \<and> stats db' = stats db @ map stat_of done"
    unfolding db' by (rule append_table.put_all_subseq[OF table])
  show "(\<And>now s d. fst (Flush E now s d) = None) \<Longrightarrow> stats db' = stats db @ map stat_of ?xs"
    unfolding db' by (intro append_table.put_all_rows[OF table]) auto
qed

section \<open>An engine with all three tables\<close>

record mem_db =
  md_stats :: "stat_row list"
  md_events :: "event_row list"
  md_signals :: "sig_row list"

fun tab_exec :: "sql \<Rightarrow> mem_db \<Rightarrow> string option \<times> mem_db" where
  "tab_exec (Insert_stats now g a b p) db =
     (None, db\<lparr>md_stats := md_stats db @ [\<lparr>sr_ts = now, sr_gate = g, sr_req = a, sr_err = b, sr_p95 = sql_real p\<rparr>]\<rparr>)"
| "tab_exec (Insert_event now g k d) db =
     (None, db\<lparr>md_events := md_events db @ [\<lparr>er_ts = now, er_gate = g, er_kind = k, er_detail = d\<rparr>]\<rparr>)"
| "tab_exec st db = (let (e, rows) = mem_exec st (md_signals db) in (e, db\<lparr>md_signals := rows\<rparr>))"

definition tab_engine :: "mem_db engine" where
  "tab_engine = \<lparr>sq_exec = tab_exec, sq_select = (\<lambda>n db. sq_select mem_engine n (md_signals db))\<rparr>"

definition empty_db :: mem_db where
  "empty_db = \<lparr>md_stats = [], md_events = [], md_signals = []\<rparr>"

lemma tab_engine_ok: "tables_ok tab_engine md_stats md_events"
proof -
  have "md_stats db' = md_stats db \<and> md_events db' = md_events db" if "tab_exec st db = (Some e, db')" for st db e db'
    using that by (cases st) (auto simp: Let_def split: prod.splits if_splits)
  then show ?thesis by (auto simp: tables_ok_def tab_engine_def Let_def split: if_splits)
qed

lemma tab_engine_no_error:
  "fst (Flush tab_engine now s db) = None" "fst (LogEvent tab_engine now g k d db) = None"
  by (simp_all add: Flush_def LogEvent_def tab_engine_def)

interpretation mem_stats: append_table "\<lambda>(now, s). Flush tab_engine now s" stat_of md_stats
  by (rule stats_provide[OF tab_engine_ok])

interpretation mem_events: append_table "\<lambda>(now, g, k, d). LogEvent tab_engine now g k d" event_of md_events
  by (rule events_provide[OF tab_engine_ok])

text \<open>The same engine keeps the contract of the signals.\<close>

lemma tab_engine_signals: "sql_ok tab_engine md_signals"
proof -
  have m: "sql_ok mem_engine (\<lambda>rows. rows)" by (rule mem_engine_ok)
  have on_signals: "sq_exec mem_engine st (md_signals db) = (e, md_signals db')"
    if "sq_exec tab_engine st db = (e, db')" "\<And>now g a b p. st \<noteq> Insert_stats now g a b p"
      "\<And>now g k d. st \<noteq> Insert_event now g k d" for st db e db'
    using that by (cases st) (auto simp: tab_engine_def mem_engine_def Let_def split: prod.splits if_splits)
  show ?thesis
    unfolding sql_ok_def
  proof (intro conjI allI impI, goal_cases)
    case (1 st db e db')
    then show ?case by (cases st) (auto simp: tab_engine_def split: if_splits)
  next
    case (2 now g k l s r a db db')
    from on_signals[OF 2] sql_okD(2)[OF m, of now "\<lparr>ts_ID = 0, ts_Ts = 0, ts_Gate = g, ts_Kind = k, ts_Level = l,
        ts_Summary = s, ts_Reasoning = r, ts_Action = a, ts_Resolved = False\<rparr>" "md_signals db" "md_signals db'"]
    show ?case by (simp add: SaveSignal_def new_row_def)
  next
    case (3 i db db')
    from on_signals[OF 3] sql_okD(3)[OF m, of i "md_signals db" "md_signals db'"] show ?case
      by (simp add: ResolveSignal_def)
  qed (auto simp: tab_engine_def mem_engine_def)
qed

end
