(* ===== verification/Signals.thy ===== *)
theory Signals
  imports Store Http_Types Go_Json
begin

text \<open>
  \<^verbatim>\<open>internal/oracle/signals.go\<close>: the HTTP interface to the stored signals. The mux is
  Go's: an exact pattern and a subtree pattern. It redirects paths that are not in canonical form
  before they reach a pattern, so \<open>SignalsHandler\<close> is about canonical ones. \<open>encode_signals\<close> is
  what \<open>json.NewEncoder(w).Encode\<close> writes of a slice: the struct has no tags, so its field names are the keys.
\<close>

definition method_not_allowed :: "w_call list" where
  "method_not_allowed = http_error ''method not allowed'' 405"

definition encode_signal :: "threat_signal \<Rightarrow> string" where
  "encode_signal t =
     json_object
       [(''ID'', Itoa (sint (ts_ID t))), (''Ts'', Itoa (sint (ts_Ts t))), (''Gate'', json_string (ts_Gate t)),
        (''Kind'', json_string (ts_Kind t)), (''Level'', json_string (ts_Level t)),
        (''Summary'', json_string (ts_Summary t)), (''Reasoning'', json_string (ts_Reasoning t)),
        (''Action'', json_string (ts_Action t)), (''Resolved'', json_bool (ts_Resolved t))]"

definition encode_signals :: "threat_signal list \<Rightarrow> string" where
  "encode_signals ts = json_array (map encode_signal ts) @ newline"

definition handle_list ::
  "(int64 \<Rightarrow> 'db \<Rightarrow> string + threat_signal list) \<Rightarrow> request \<Rightarrow> 'db \<Rightarrow> w_call list" where
  "handle_list listing r db =
     (if rq_method r \<noteq> ''GET'' then method_not_allowed
      else (case listing 100 db of
              Inl e \<Rightarrow> http_error ''internal error'' 500
            | Inr signals \<Rightarrow>
                [W_Header ''Content-Type'' ''application/json'', W_Write (encode_signals signals)]))"

definition handle_resolve ::
  "(int64 \<Rightarrow> 'db \<Rightarrow> string option \<times> 'db) \<Rightarrow> request \<Rightarrow> 'db \<Rightarrow> w_call list \<times> 'db" where
  "handle_resolve resolve r db =
     (if rq_method r \<noteq> ''POST'' then (method_not_allowed, db)
      else
        let parts = split_n2 (CHR ''/'') (trim_prefix (rq_path r) ''/oracle/signals/'')
        in if length parts \<noteq> 2 \<or> parts ! 1 \<noteq> ''resolve'' then (http_error ''404 page not found'' 404, db)
           else
             let (i, err) = ParseInt (parts ! 0)
             in if err \<noteq> None then (http_error ''invalid id'' 400, db)
                else
                  let (res, db1) = resolve (word_of_int i) db
                  in if res \<noteq> None then (http_error ''internal error'' 500, db1)
                     else ([W_WriteHeader 204], db1))"

definition SignalsHandler ::
  "(int64 \<Rightarrow> 'db \<Rightarrow> string + threat_signal list) \<Rightarrow>
   (int64 \<Rightarrow> 'db \<Rightarrow> string option \<times> 'db) \<Rightarrow> 'db handler" where
  "SignalsHandler listing resolve r db =
     (if rq_path r = ''/oracle/signals'' then (handle_list listing r db, Returned, db)
      else if take 16 (rq_path r) = ''/oracle/signals/'' then
        (let (calls, db1) = handle_resolve resolve r db in (calls, Returned, db1))
      else (http_error ''404 page not found'' 404, Returned, db))"

section \<open>The listing determines the signals\<close>

definition ascii_signal :: "threat_signal \<Rightarrow> bool" where
  "ascii_signal t \<longleftrightarrow> ascii (ts_Gate t) \<and> ascii (ts_Kind t) \<and> ascii (ts_Level t) \<and> ascii (ts_Summary t) \<and>
     ascii (ts_Reasoning t) \<and> ascii (ts_Action t)"

lemma encode_signal_parts:
  "encode_signal t @ u =
     (CHR ''{'' # key_part ''ID'') @ Itoa (sint (ts_ID t)) @ CHR '','' # key_part ''Ts'' @ Itoa (sint (ts_Ts t)) @
     CHR '','' # key_part ''Gate'' @ json_string (ts_Gate t) @ (CHR '','' # key_part ''Kind'') @ json_string (ts_Kind t) @
     (CHR '','' # key_part ''Level'') @ json_string (ts_Level t) @ (CHR '','' # key_part ''Summary'') @ json_string (ts_Summary t) @
     (CHR '','' # key_part ''Reasoning'') @ json_string (ts_Reasoning t) @ (CHR '','' # key_part ''Action'') @ json_string (ts_Action t) @
     (CHR '','' # key_part ''Resolved'') @ json_bool (ts_Resolved t) @ CHR ''}'' # u"
  by (simp add: encode_signal_def json_object_def key_part_def)

lemma encode_signal_inj:
  assumes "ascii_signal s" "ascii_signal t" "encode_signal s @ u = encode_signal t @ v"
  shows "s = t \<and> u = v"
proof -
  have a: "ascii (f s)" "ascii (f t)" if "f \<in> {ts_Gate, ts_Kind, ts_Level, ts_Summary, ts_Reasoning, ts_Action}" for f
    using assms(1,2) that by (auto simp: ascii_signal_def)
  note ids = keyed_int[OF assms(3)[unfolded encode_signal_parts]]
  note ts = keyed_int[OF ids[THEN conjunct2]]
  note gate = keyed_string[OF a[of ts_Gate] ts[THEN conjunct2]]
  note kind = keyed_string[OF a[of ts_Kind] gate[THEN conjunct2]]
  note level = keyed_string[OF a[of ts_Level] kind[THEN conjunct2]]
  note summary = keyed_string[OF a[of ts_Summary] level[THEN conjunct2]]
  note reasoning = keyed_string[OF a[of ts_Reasoning] summary[THEN conjunct2]]
  note action = keyed_string[OF a[of ts_Action] reasoning[THEN conjunct2]]
  note resolved = keyed_bool[OF action[THEN conjunct2]]
  show ?thesis
    using signed_word_eqI[OF ids[THEN conjunct1]] signed_word_eqI[OF ts[THEN conjunct1]] gate kind level summary reasoning action resolved by (intro conjI threat_signal.equality) simp_all
qed

lemma encode_signals_inj:
  assumes "list_all ascii_signal ss" "list_all ascii_signal ts" "encode_signals ss = encode_signals ts"
  shows "ss = ts"
proof -
  have starts: "encode_signal t \<noteq> [] \<and> hd (encode_signal t) \<noteq> CHR '']''" for t
    by (simp add: encode_signal_def json_object_def)
  have "json_elements (map encode_signal ss) @ CHR '']'' # newline = json_elements (map encode_signal ts) @ CHR '']'' # newline"
    using assms(3) by (simp add: encode_signals_def json_array_def)
  with encode_signal_inj starts assms(1,2) have "ss = ts \<and> newline = newline" by (rule json_elements_inj)
  then show ?thesis ..
qed

section \<open>The path of a resolve request\<close>

lemma digit_char_no_slash: "d < 10 \<Longrightarrow> digit_char d \<noteq> CHR ''/''"
proof -
  assume d: "d < 10"
  have "list_all (\<lambda>d. digit_char d \<noteq> CHR ''/'') [0..<10]" by code_simp
  with d show ?thesis by (simp add: list_all_iff)
qed

lemma slash_digits: "CHR ''/'' \<notin> set (nat_digits n)"
proof (induction n rule: nat_digits.induct)
  case (1 n)
  show ?case
  proof (cases "n < 10")
    case True
    then show ?thesis by (subst nat_digits.simps) (simp add: not_sym[OF digit_char_no_slash])
  next
    case False
    then show ?thesis
      using 1 by (subst nat_digits.simps) (simp add: not_sym[OF digit_char_no_slash])
  qed
qed

lemma slash_Itoa: "CHR ''/'' \<notin> set (Itoa i)"
  by (simp add: Itoa_def slash_digits)

lemma take_append_prefix: "take (length p) (p @ s) = p" "drop (length p) (p @ s) = s"
  by simp_all

text \<open>The request that resolves signal \<open>i\<close>.\<close>

definition resolve_path :: "int \<Rightarrow> string" where
  "resolve_path i = ''/oracle/signals/'' @ Itoa i @ ''/resolve''"

lemma resolve_path_split:
  "split_n2 (CHR ''/'') (trim_prefix (resolve_path i) ''/oracle/signals/'') = [Itoa i, ''resolve'']"
proof -
  have "trim_prefix (resolve_path i) ''/oracle/signals/'' = Itoa i @ CHR ''/'' # ''resolve''"
    unfolding resolve_path_def trim_prefix_def take_append_prefix by simp
  then show ?thesis by (simp add: split_n2_append slash_Itoa)
qed

lemma handle_resolve_ok:
  assumes "rq_method r = ''POST''" "rq_path r = resolve_path i" "- (2 ^ 63) \<le> i" "i < 2 ^ 63"
  shows "handle_resolve resolve r db =
    (if fst (resolve (word_of_int i) db) = None then [W_WriteHeader 204] else http_error ''internal error'' 500,
     snd (resolve (word_of_int i) db))"
  using assms by (simp add: handle_resolve_def resolve_path_split ParseInt_Itoa Let_def split: prod.split)

lemma SignalsHandler_resolve:
  assumes "rq_method r = ''POST''" "rq_path r = resolve_path i" "- (2 ^ 63) \<le> i" "i < 2 ^ 63"
    "resolve (word_of_int i) db = (None, db')"
  shows "SignalsHandler listing resolve r db = ([W_WriteHeader 204], Returned, db')"
proof -
  have "rq_path r \<noteq> ''/oracle/signals''" "take 16 (rq_path r) = ''/oracle/signals/''"
    by (simp_all add: assms(2) resolve_path_def)
  with handle_resolve_ok[OF assms(1-4), of resolve db] assms(5) show ?thesis
    by (simp add: SignalsHandler_def)
qed

text \<open>Every other request leaves the store alone.\<close>

lemma SignalsHandler_readonly:
  assumes "rq_method r \<noteq> ''POST''"
  shows "snd (snd (SignalsHandler listing resolve r db)) = db"
  using assms by (simp add: SignalsHandler_def handle_resolve_def)

lemma SignalsHandler_list:
  assumes "rq_method r = ''GET''" "rq_path r = ''/oracle/signals''" "listing 100 db = Inr sigs"
  shows "SignalsHandler listing resolve r db =
    ([W_Header ''Content-Type'' ''application/json'', W_Write (encode_signals sigs)], Returned, db)"
  using assms by (simp add: SignalsHandler_def handle_list_def)

end
