(* ===== verification/Startup.thy ===== *)
theory Startup
  imports Mission_Control Config Signals
begin

text \<open>
  The order of events in \<open>main\<close> of \<^verbatim>\<open>cmd/centauri/main.go\<close>: the configuration is loaded, the metrics
  store, the Oracle and the metrics server are started when the metrics are enabled, then every gate
  in turn, then the watcher. Each step that can fail ends the program. What the operating system and the
  libraries answer is the record \<open>startup\<close>.
\<close>

record startup =
  su_load :: "string + config"
  su_open_db :: "string option"
  su_init_db :: "string option"
  su_open_log :: "string \<Rightarrow> string option"
  su_watch :: "string option"

text \<open>The metrics server, when there is one: its port and the Oracle, when that is on.\<close>

record metrics_service =
  sv_Port :: int64
  sv_Oracle :: "oracle_state option"

record program =
  pg_service :: "metrics_service option"
  pg_gates :: "gate list"
  pg_registry :: "string \<rightharpoonup> nat"

definition gateNames :: "config \<Rightarrow> string list" where
  "gateNames cfg = map jg_Name (cf_JumpGates cfg)"

definition start_metrics :: "startup \<Rightarrow> config \<Rightarrow> string + metrics_service option" where
  "start_metrics w cfg =
     (if \<not> mcf_Enabled (cf_Metrics cfg) then Inr None
      else (case su_open_db w of
              Some e \<Rightarrow> Inl e
            | None \<Rightarrow>
               (case su_init_db w of
                  Some e \<Rightarrow> Inl e
                | None \<Rightarrow> Inr (Some \<lparr>sv_Port = mcf_Port (cf_Metrics cfg),
                                    sv_Oracle = oracle_New (cf_Oracle cfg) (gateNames cfg)\<rparr>))))"

text \<open>An HTTP gate opens its log file before it starts to listen.\<close>

fun start_gates :: "startup \<Rightarrow> bool \<Rightarrow> jump_gate list \<Rightarrow> string + gate list" where
  "start_gates w store [] = Inr []"
| "start_gates w store (g # gs) =
     (case (if jg_Protocol g = ''http'' then su_open_log w (''logs/'' @ jg_Name g @ ''.log'') else None) of
        Some e \<Rightarrow> Inl e
      | None \<Rightarrow>
         (case start_gates w store gs of
            Inl e \<Rightarrow> Inl e
          | Inr rest \<Rightarrow> Inr (start_gate store g # rest)))"

definition main_start :: "startup \<Rightarrow> string + program" where
  "main_start w =
     (case su_load w of
        Inl e \<Rightarrow> Inl e
      | Inr cfg \<Rightarrow>
         (case start_metrics w cfg of
            Inl e \<Rightarrow> Inl e
          | Inr service \<Rightarrow>
             (case start_gates w (service \<noteq> None) (cf_JumpGates cfg) of
                Inl e \<Rightarrow> Inl e
              | Inr gates \<Rightarrow>
                 (case su_watch w of
                    Some e \<Rightarrow> Inl e
                  | None \<Rightarrow> Inr \<lparr>pg_service = service, pg_gates = gates,
                                pg_registry = gate_registry (cf_JumpGates cfg)\<rparr>))))"

text \<open>The metrics server's mux, on canonical paths; the signals are mounted only beside an Oracle.\<close>

datatype route = R_Metrics | R_Signals | R_NotFound

definition metrics_route :: "metrics_service \<Rightarrow> string \<Rightarrow> route" where
  "metrics_route sv path =
     (if path = ''/metrics'' then R_Metrics
      else if sv_Oracle sv \<noteq> None \<and> (path = ''/oracle/signals'' \<or> take 16 path = ''/oracle/signals/'') then R_Signals
      else R_NotFound)"

text \<open>What the program does with an event of the health checker, and with a reload.\<close>

definition on_health_event :: "'db engine \<Rightarrow> int64 \<Rightarrow> scan_event \<Rightarrow> 'db \<Rightarrow> 'db" where
  "on_health_event E now ev db = (let (g, kind, detail) = ev in snd (LogEvent E now g kind detail db))"

definition on_reload :: "'db engine \<Rightarrow> int64 \<Rightarrow> bool \<Rightarrow> config \<Rightarrow> program \<times> 'db \<Rightarrow> program \<times> 'db" where
  "on_reload E now store cfg st =
     (let (p, db) = st
      in (p\<lparr>pg_gates := reload (pg_registry p) cfg (pg_gates p)\<rparr>,
          if store then snd (LogEvent E now ''*'' ''config_reload'' ''centauri.yml'' db) else db))"

section \<open>Facts\<close>

lemma start_gates_all: "start_gates w store gs = Inr rest \<Longrightarrow> rest = map (start_gate store) gs"
  by (induction gs arbitrary: rest) (auto split: option.splits sum.splits if_splits)

lemma start_metrics_cases:
  assumes "start_metrics w cfg = Inr service"
  shows "(service \<noteq> None) = mcf_Enabled (cf_Metrics cfg)"
    and "service = Some sv \<Longrightarrow> sv_Oracle sv = oracle_New (cf_Oracle cfg) (gateNames cfg)"
  using assms by (auto simp: start_metrics_def split: if_splits option.splits)

lemma main_start_parts:
  assumes "main_start w = Inr p"
  obtains cfg where "su_load w = Inr cfg" "start_metrics w cfg = Inr (pg_service p)"
    "pg_gates p = map (start_gate (mcf_Enabled (cf_Metrics cfg))) (cf_JumpGates cfg)"
    "pg_registry p = gate_registry (cf_JumpGates cfg)"
proof -
  obtain cfg service gates where c: "su_load w = Inr cfg" and m: "start_metrics w cfg = Inr service"
    and g: "start_gates w (service \<noteq> None) (cf_JumpGates cfg) = Inr gates"
    and p: "p = \<lparr>pg_service = service, pg_gates = gates, pg_registry = gate_registry (cf_JumpGates cfg)\<rparr>"
    using assms by (auto simp: main_start_def split: sum.splits option.splits)
  show thesis
    using that[of cfg] c m start_gates_all[OF g] start_metrics_cases(1)[OF m] by (simp add: p)
qed

lemma started_sync:
  assumes "\<forall>g\<in>set gs. distinct (gate_addrs g)"
  shows "gates_sync (map (start_gate store) gs)"
  using assms start_gate_sync by (auto simp: gates_sync_def simp del: start_gate_simps)

text \<open>Any number of reloads.\<close>

lemma on_reload_sync:
  assumes "gates_sync (pg_gates p)" "\<forall>g\<in>set (cf_JumpGates cfg). distinct (gate_addrs g)"
  shows "gates_sync (pg_gates (fst (on_reload E now store cfg (p, db))))"
  using reload_sync[OF assms, of "pg_registry p"] by (simp add: on_reload_def)

lemma reloads_sync:
  assumes "gates_sync (pg_gates p)" "\<forall>c\<in>set cfgs. \<forall>g\<in>set (cf_JumpGates c). distinct (gate_addrs g)"
  shows "gates_sync (pg_gates (fst (fold (on_reload E now store) cfgs (p, db)))) \<and>
    length (pg_gates (fst (fold (on_reload E now store) cfgs (p, db)))) = length (pg_gates p)"
  using assms
proof (induction cfgs arbitrary: p db)
  case (Cons c cfgs)
  obtain p1 db1 where o: "on_reload E now store c (p, db) = (p1, db1)" by fastforce
  have "gates_sync (pg_gates p1)" using on_reload_sync[of p c E now store db] Cons.prems o by simp
  moreover have "length (pg_gates p1) = length (pg_gates p)" using o by (auto simp: on_reload_def)
  ultimately show ?case using Cons.IH[of p1 db1] Cons.prems o by simp
qed simp

end
