(* ===== verification/Oracle_Race.thy ===== *)
theory Oracle_Race
  imports The_Oracle
begin

text \<open>
  The two goroutines that run \<open>analyze\<close> of \<^verbatim>\<open>internal/oracle/oracle.go\<close>: the ticker
  of \<open>Start\<close> and, through \<open>Check\<close>, the flush loop of \<^verbatim>\<open>main.go\<close>. \<open>analyze_step\<close> is one
  stretch of \<open>analyze\<close> between two releases of the mutex, so that the other goroutine may act in between; run without
  interference the stretches are \<open>analyze\<close>.
\<close>

section \<open>The stretches of a round\<close>

text \<open>
  The time kept from the decision on is that of the decision; it is not in the code and only
  feeds the log \<open>os_asked\<close>.
\<close>

datatype or_pc =
    OP_Idle
  | OP_Read
  | OP_Build "gate_snapshot list" f64
  | OP_Decide "gate_snapshot list"
  | OP_Call "gate_snapshot list" int
  | OP_Record "gate_snapshot list" oracle_response int
  | OP_Save oracle_response

record 'db oracle_sys =
  os_ora :: oracle_state
  os_db :: 'db
  os_now :: int
  os_pc :: "nat \<Rightarrow> or_pc"
  os_asked :: "(nat \<times> int) list"

definition oracle_sys_init :: "oracle_state \<Rightarrow> 'db \<Rightarrow> int \<Rightarrow> 'db oracle_sys" where
  "oracle_sys_init ora db now =
     \<lparr>os_ora = ora, os_db = db, os_now = now, os_pc = (\<lambda>g. OP_Idle), os_asked = []\<rparr>"

definition move :: "nat \<Rightarrow> or_pc \<Rightarrow> 'db oracle_sys \<Rightarrow> 'db oracle_sys" where
  "move g pc s = s\<lparr>os_pc := (os_pc s)(g := pc)\<rparr>"

definition analyze_step ::
  "(threat_signal \<Rightarrow> 'db \<Rightarrow> string option \<times> 'db) \<Rightarrow> family list option \<Rightarrow> messages_api \<Rightarrow>
   (string \<Rightarrow> string + oracle_response) \<Rightarrow> nat \<Rightarrow> 'db oracle_sys \<Rightarrow> 'db oracle_sys" where
  "analyze_step save gather client unjson g s =
     (let ora = os_ora s
      in case os_pc s g of
           OP_Idle \<Rightarrow> s
         | OP_Read \<Rightarrow> move g (OP_Build (or_lastSnaps ora) (round_interval ora (os_now s))) s
         | OP_Build prev interval \<Rightarrow>
             move g (OP_Decide (BuildSnapshot gather (or_gateNames ora) prev interval)) s
         | OP_Decide snaps \<Rightarrow>
             move g (if shouldCall ora (os_now s) snaps then OP_Call snaps (os_now s) else OP_Idle) s
         | OP_Call snaps t \<Rightarrow>
             (case callClaude client unjson ora snaps of
                Inl e \<Rightarrow> move g OP_Idle s
              | Inr resp \<Rightarrow> move g (OP_Record snaps resp t) s)
         | OP_Record snaps resp t \<Rightarrow>
             move g (if rs_Kind resp = ''ok'' then OP_Idle else OP_Save resp)
               (s\<lparr>os_ora := ora\<lparr>or_lastCall := os_now s, or_lastSnaps := snaps\<rparr>,
                  os_asked := (g, t) # os_asked s\<rparr>)
         | OP_Save resp \<Rightarrow> move g OP_Idle (s\<lparr>os_db := snd (save (to_signal resp) (os_db s))\<rparr>))"

lemma move_simps [simp]:
  "os_ora (move g pc s) = os_ora s" "os_db (move g pc s) = os_db s" "os_now (move g pc s) = os_now s"
  "os_asked (move g pc s) = os_asked s" "os_pc (move g pc s) h = (if h = g then pc else os_pc s h)"
  by (simp_all add: move_def)

section \<open>Both goroutines\<close>

text \<open>Goroutine 0 is the ticker, goroutine 1 the flush loop, which has snapshots of its own to check.\<close>

inductive oracle_step ::
  "(threat_signal \<Rightarrow> 'db \<Rightarrow> string option \<times> 'db) \<Rightarrow> 'db oracle_sys \<Rightarrow> 'db oracle_sys \<Rightarrow> bool" for save where
  clock: "os_now s \<le> now \<Longrightarrow> oracle_step save s (s\<lparr>os_now := now\<rparr>)"
| tick: "os_pc s 0 = OP_Idle \<Longrightarrow> oracle_step save s (move 0 OP_Read s)"
| check: "os_pc s 1 = OP_Idle \<Longrightarrow> shouldCall (os_ora s) (os_now s) snaps \<Longrightarrow> oracle_step save s (move 1 OP_Read s)"
| run: "oracle_step save s (analyze_step save gather client unjson g s)"

inductive_cases oracle_step_E: "oracle_step save s t"

text \<open>When a goroutine decided to ask, for the calls that succeeded, oldest first.\<close>

definition asks_of :: "nat \<Rightarrow> 'db oracle_sys \<Rightarrow> int list" where
  "asks_of g s = rev (map snd (filter (\<lambda>p. fst p = g) (os_asked s)))"

section \<open>Without interference\<close>

definition at_time :: "int \<Rightarrow> 'db oracle_sys \<Rightarrow> 'db oracle_sys" where
  "at_time t s = s\<lparr>os_now := t\<rparr>"

text \<open>The stretches one after the other, with the clock readings of \<open>w\<close>.\<close>

definition run_alone ::
  "(threat_signal \<Rightarrow> 'db \<Rightarrow> string option \<times> 'db) \<Rightarrow> world \<Rightarrow> nat \<Rightarrow> 'db oracle_sys \<Rightarrow> 'db oracle_sys" where
  "run_alone save w g s =
     (let st = analyze_step save (wd_gather w) (wd_client w) (wd_unjson w) g;
          decided = st (at_time (wd_decide w) (st (st (at_time (wd_read w) (move g OP_Read s)))))
      in st (st (at_time (wd_record w) (st decided))))"

lemma at_time_simps [simp]:
  "os_ora (at_time t s) = os_ora s" "os_db (at_time t s) = os_db s" "os_now (at_time t s) = t"
  "os_asked (at_time t s) = os_asked s" "os_pc (at_time t s) = os_pc s"
  by (simp_all add: at_time_def)

lemma analyze_step_pcs:
  "os_pc s g = OP_Idle \<Longrightarrow> analyze_step save gather client unjson g s = s"
  "os_pc s g = OP_Read \<Longrightarrow> analyze_step save gather client unjson g s =
     move g (OP_Build (or_lastSnaps (os_ora s)) (round_interval (os_ora s) (os_now s))) s"
  "os_pc s g = OP_Build prev i \<Longrightarrow> analyze_step save gather client unjson g s =
     move g (OP_Decide (BuildSnapshot gather (or_gateNames (os_ora s)) prev i)) s"
  "os_pc s g = OP_Decide snaps \<Longrightarrow> analyze_step save gather client unjson g s =
     move g (if shouldCall (os_ora s) (os_now s) snaps then OP_Call snaps (os_now s) else OP_Idle) s"
  "os_pc s g = OP_Call snaps t \<Longrightarrow> analyze_step save gather client unjson g s =
     (case callClaude client unjson (os_ora s) snaps of
        Inl e \<Rightarrow> move g OP_Idle s | Inr resp \<Rightarrow> move g (OP_Record snaps resp t) s)"
  "os_pc s g = OP_Record snaps resp t \<Longrightarrow> analyze_step save gather client unjson g s =
     move g (if rs_Kind resp = ''ok'' then OP_Idle else OP_Save resp)
       (s\<lparr>os_ora := (os_ora s)\<lparr>or_lastCall := os_now s, or_lastSnaps := snaps\<rparr>,
          os_asked := (g, t) # os_asked s\<rparr>)"
  "os_pc s g = OP_Save resp \<Longrightarrow> analyze_step save gather client unjson g s =
     move g OP_Idle (s\<lparr>os_db := snd (save (to_signal resp) (os_db s))\<rparr>)"
  by (simp_all add: analyze_step_def Let_def)

lemma run_alone_analyze:
  "os_ora (run_alone save w g s) = fst (analyze save w (os_ora s, os_db s))"
  "os_db (run_alone save w g s) = snd (analyze save w (os_ora s, os_db s))"
  "os_pc (run_alone save w g s) g = OP_Idle"
proof -
  let ?st = "analyze_step save (wd_gather w) (wd_client w) (wd_unjson w) g"
  define snaps where "snaps = round_snaps (os_ora s) w"
  define decided where "decided = ?st (at_time (wd_decide w) (?st (?st (at_time (wd_read w) (move g OP_Read s)))))"
  have alone: "run_alone save w g s = ?st (?st (at_time (wd_record w) (?st decided)))"
    by (simp add: run_alone_def decided_def Let_def)
  have decided: "os_ora decided = os_ora s" "os_db decided = os_db s"
    "os_pc decided g = (if calls_claude (os_ora s) w then OP_Call snaps (wd_decide w) else OP_Idle)"
    by (simp_all add: decided_def analyze_step_pcs calls_claude_def snaps_def round_snaps_def)
  consider "\<not> calls_claude (os_ora s) w"
    | e where "calls_claude (os_ora s) w" "answer (os_ora s) w snaps = Inl e"
    | resp where "calls_claude (os_ora s) w" "answer (os_ora s) w snaps = Inr resp"
    by (cases "answer (os_ora s) w snaps") auto
  then have "os_ora (run_alone save w g s) = fst (analyze save w (os_ora s, os_db s)) \<and>
    os_db (run_alone save w g s) = snd (analyze save w (os_ora s, os_db s)) \<and>
    os_pc (run_alone save w g s) g = OP_Idle"
  proof cases
    case 1
    then show ?thesis by (simp add: alone decided analyze_step_pcs analyze_def)
  next
    case 2
    then have "callClaude (wd_client w) (wd_unjson w) (os_ora s) snaps = Inl e" by (simp add: answer_def)
    with 2 show ?thesis by (simp add: alone decided analyze_step_pcs analyze_def snaps_def Let_def)
  next
    case 3
    then have "callClaude (wd_client w) (wd_unjson w) (os_ora s) snaps = Inr resp" by (simp add: answer_def)
    with 3 show ?thesis by (simp add: alone decided analyze_step_pcs analyze_def snaps_def Let_def)
  qed
  then show "os_ora (run_alone save w g s) = fst (analyze save w (os_ora s, os_db s))"
    "os_db (run_alone save w g s) = snd (analyze save w (os_ora s, os_db s))"
    "os_pc (run_alone save w g s) g = OP_Idle" by simp_all
qed

lemma run_alone_reach:
  assumes "os_pc s g = OP_Idle" "g = 0" "os_now s \<le> wd_read w" "wd_read w \<le> wd_decide w" "wd_decide w \<le> wd_record w"
  shows "(oracle_step save)\<^sup>*\<^sup>* s (run_alone save w g s)"
proof -
  let ?st = "analyze_step save (wd_gather w) (wd_client w) (wd_unjson w) g"
  have st: "(oracle_step save)\<^sup>*\<^sup>* x y \<Longrightarrow> (oracle_step save)\<^sup>*\<^sup>* x (?st y)" for x y
    by (erule rtranclp.rtrancl_into_rtrancl) (rule oracle_step.run)
  have clk: "(oracle_step save)\<^sup>*\<^sup>* x y \<Longrightarrow> os_now y \<le> t \<Longrightarrow> (oracle_step save)\<^sup>*\<^sup>* x (at_time t y)" for x y t
    unfolding at_time_def by (erule rtranclp.rtrancl_into_rtrancl) (rule oracle_step.clock)
  have now: "os_now (?st y) = os_now y" for y
    by (auto simp: analyze_step_def Let_def split: or_pc.splits sum.splits)
  have "(oracle_step save)\<^sup>*\<^sup>* s (move g OP_Read s)" using assms(1,2) by (auto intro: oracle_step.tick)
  then show ?thesis unfolding run_alone_def Let_def
    using assms(3-5) by (intro st clk) (simp_all add: now)
qed

section \<open>How often one goroutine asks\<close>

fun pending_ask :: "or_pc \<Rightarrow> int option" where
  "pending_ask (OP_Call snaps t) = Some t"
| "pending_ask (OP_Record snaps resp t) = Some t"
| "pending_ask pc = None"

definition asks_inv :: "oracle_config \<Rightarrow> 'db oracle_sys \<Rightarrow> bool" where
  "asks_inv cfg s \<longleftrightarrow>
     or_cfg (os_ora s) = cfg \<and> or_lastCall (os_ora s) \<le> os_now s \<and>
     (\<forall>p\<in>set (os_asked s). snd p \<le> or_lastCall (os_ora s)) \<and>
     (\<forall>g. spaced (sint (seconds (oc_IntervalSeconds cfg)))
        (asks_of g s @ (case pending_ask (os_pc s g) of None \<Rightarrow> [] | Some t \<Rightarrow> [t]))) \<and>
     (\<forall>g t. pending_ask (os_pc s g) = Some t \<longrightarrow> t \<le> os_now s)"

lemma spaced_snoc: "spaced d (xs @ [t]) \<longleftrightarrow> spaced d xs \<and> (xs \<noteq> [] \<longrightarrow> last xs + d \<le> t)"
  by (induction d xs rule: spaced.induct) auto

lemma asks_of_simps [simp]:
  "asks_of g (move h pc s) = asks_of g s" "asks_of g (s\<lparr>os_now := now\<rparr>) = asks_of g s"
  "asks_of g (s\<lparr>os_db := db\<rparr>) = asks_of g s"
  "asks_of g (s\<lparr>os_ora := ora, os_asked := (h, t) # os_asked s\<rparr>) = asks_of g s @ (if g = h then [t] else [])"
  by (simp_all add: asks_of_def)

lemma asks_inv_init:
  "or_lastCall ora \<le> now \<Longrightarrow> asks_inv (or_cfg ora) (oracle_sys_init ora db now)"
  by (simp add: asks_inv_def oracle_sys_init_def asks_of_def)

lemma asks_inv_spaced:
  "asks_inv cfg s \<Longrightarrow> spaced (sint (seconds (oc_IntervalSeconds cfg))) (asks_of g s)"
  by (cases "pending_ask (os_pc s g)") (auto simp: asks_inv_def spaced_snoc dest: spec[of _ g])

text \<open>A move that asks nothing keeps the invariant; so does the decision, the interval being over.\<close>

lemma asks_inv_move:
  assumes "asks_inv cfg s" "pending_ask pc \<in> {None, pending_ask (os_pc s g)}"
  shows "asks_inv cfg (move g pc s)"
  using assms asks_inv_spaced[OF assms(1), of g] by (auto simp: asks_inv_def split: option.splits)

lemma asks_inv_decide:
  assumes "asks_inv cfg s" "quiet cfg" "shouldCall (os_ora s) (os_now s) snaps" "pending_ask (os_pc s g) = None"
    "pending_ask pc = Some (os_now s)" 
  shows "asks_inv cfg (move g pc s)"
proof -
  let ?d = "sint (seconds (oc_IntervalSeconds cfg))"
  have inv: "or_cfg (os_ora s) = cfg" "or_lastCall (os_ora s) \<le> os_now s"
    "\<And>p. p \<in> set (os_asked s) \<Longrightarrow> snd p \<le> or_lastCall (os_ora s)" "spaced ?d (asks_of g s)"
    using assms(1,4) by (auto simp: asks_inv_def dest: spec[of _ g])
  have "interval_over (os_ora s) (os_now s)"
    using assms(2,3) inv(1) quiet_breach by (auto simp: shouldCall_def split: if_splits)
  then have gap: "or_lastCall (os_ora s) + ?d \<le> os_now s"
    using inv(1,2) by (simp add: interval_over_def since_def max_def min_def split: if_splits)
  have "last (asks_of g s) + ?d \<le> os_now s" if "asks_of g s \<noteq> []"
  proof -
    have "last (asks_of g s) \<in> snd ` set (os_asked s)" using last_in_set[OF that] by (auto simp: asks_of_def)
    with inv(3) gap show ?thesis by force
  qed
  with inv(4) assms(1,5) show ?thesis by (auto simp: asks_inv_def spaced_snoc split: option.splits)
qed

lemma asks_inv_record:
  assumes "asks_inv cfg s" "os_pc s g = OP_Record snaps resp t" "pending_ask pc = None"
  shows "asks_inv cfg (move g pc (s\<lparr>os_ora := (os_ora s)\<lparr>or_lastCall := os_now s, or_lastSnaps := sn\<rparr>,
    os_asked := (g, t) # os_asked s\<rparr>))"
proof -
  have "t \<le> os_now s" using assms(1,2) by (auto simp: asks_inv_def dest: spec[of _ g])
  moreover have "spaced (sint (seconds (oc_IntervalSeconds cfg))) (asks_of g s @ [t])"
    using assms(1,2) by (auto simp: asks_inv_def dest: spec[of _ g])
  ultimately show ?thesis using assms(1,3)
    by (auto simp: asks_inv_def intro: order_trans split: option.splits)
qed

lemma asks_inv_run:
  assumes "asks_inv cfg s" "quiet cfg"
  shows "asks_inv cfg (analyze_step save gather client unjson g s)"
proof (cases "os_pc s g")
  case (OP_Decide snaps)
  with assms show ?thesis
    by (auto simp: analyze_step_pcs intro: asks_inv_move asks_inv_decide)
next
  case (OP_Call snaps t)
  with assms(1) show ?thesis by (auto simp: analyze_step_pcs intro: asks_inv_move split: sum.split)
next
  case (OP_Record snaps resp t)
  with assms(1) show ?thesis by (auto simp: analyze_step_pcs intro: asks_inv_record)
next
  case (OP_Save resp)
  have "asks_inv cfg (s\<lparr>os_db := snd (save (to_signal resp) (os_db s))\<rparr>)"
    using assms(1) by (simp add: asks_inv_def)
  with OP_Save show ?thesis by (auto simp: analyze_step_pcs intro: asks_inv_move)
qed (use assms(1) in \<open>simp_all add: analyze_step_pcs asks_inv_move\<close>)

lemma asks_inv_step:
  assumes "oracle_step save s t" "quiet cfg" "asks_inv cfg s"
  shows "asks_inv cfg t"
  using assms(1)
proof cases
  case (clock now)
  with assms(3) show ?thesis unfolding asks_inv_def by (simp, meson order_trans)
qed (use assms in \<open>auto intro: asks_inv_run asks_inv_move\<close>)

lemma asks_inv_reach:
  assumes "(oracle_step save)\<^sup>*\<^sup>* s t" "quiet cfg" "asks_inv cfg s"
  shows "asks_inv cfg t"
  using assms(1) by (induction rule: rtranclp_induct) (use assms(2,3) asks_inv_step in auto)

section \<open>Both at once\<close>

lemma move_move [simp]: "move g pc (move g pc' s) = move g pc s"
  by (simp add: move_def)

lemma due_decides:
  assumes "os_pc s g = OP_Read" "interval_over (os_ora s) (os_now s)"
  shows "\<exists>snaps. (oracle_step save)\<^sup>*\<^sup>* s (move g (OP_Call snaps (os_now s)) s)"
proof -
  let ?st = "analyze_step save None (\<lambda>m s u. Inr []) (\<lambda>t. Inl t) g"
  let ?prev = "or_lastSnaps (os_ora s)" and ?i = "round_interval (os_ora s) (os_now s)"
  let ?snaps = "BuildSnapshot None (or_gateNames (os_ora s)) ?prev ?i"
  have 1: "?st s = move g (OP_Build ?prev ?i) s" using assms(1) by (simp add: analyze_step_pcs)
  have 2: "?st (move g (OP_Build ?prev ?i) s) = move g (OP_Decide ?snaps) s" by (simp add: analyze_step_pcs)
  have 3: "?st (move g (OP_Decide ?snaps) s) = move g (OP_Call ?snaps (os_now s)) s"
    using assms(2) by (simp add: analyze_step_pcs shouldCall_def)
  have "oracle_step save s (move g (OP_Build ?prev ?i) s)"
    "oracle_step save (move g (OP_Build ?prev ?i) s) (move g (OP_Decide ?snaps) s)"
    "oracle_step save (move g (OP_Decide ?snaps) s) (move g (OP_Call ?snaps (os_now s)) s)"
    unfolding 1[symmetric] 2[symmetric] 3[symmetric] by (rule oracle_step.run)+
  then show ?thesis by (meson converse_rtranclp_into_rtranclp rtranclp.rtrancl_refl)
qed

definition all_ok :: oracle_response where
  "all_ok = \<lparr>rs_Kind = ''ok'', rs_Level = ''low'', rs_Gate = ''*'', rs_Summary = '''', rs_Reasoning = '''',
     rs_Action = ''''\<rparr>"

lemma called_records:
  assumes "os_pc s g = OP_Call snaps t"
  shows "\<exists>u. (oracle_step save)\<^sup>*\<^sup>* s u \<and> os_asked u = (g, t) # os_asked s \<and> os_pc u = (os_pc s)(g := OP_Idle)"
proof -
  let ?st = "analyze_step save None (\<lambda>m s u. Inr [u]) (\<lambda>t. Inr all_ok) g"
  let ?u = "?st (?st s)"
  have ok: "rs_Kind all_ok = ''ok''" by (simp add: all_ok_def)
  have 1: "?st s = move g (OP_Record snaps all_ok t) s"
    using assms by (simp add: analyze_step_pcs callClaude_def split: prod.splits)
  have "os_asked ?u = (g, t) # os_asked s \<and> os_pc ?u = (os_pc s)(g := OP_Idle)"
    by (simp only: 1) (simp add: analyze_step_pcs ok, simp add: move_def)
  moreover have "(oracle_step save)\<^sup>*\<^sup>* s ?u"
    by (meson oracle_step.run rtranclp.rtrancl_into_rtrancl rtranclp.rtrancl_refl)
  ultimately show ?thesis by blast
qed

lemma both_ask:
  assumes "interval_over ora now"
  shows "\<exists>s. (oracle_step save)\<^sup>*\<^sup>* (oracle_sys_init ora db now) s \<and> asks_of 0 s = [now] \<and> asks_of 1 s = [now]"
proof -
  let ?R = "oracle_step save"
  define s0 where "s0 = oracle_sys_init ora db now"
  define s1 where "s1 = move 1 OP_Read (move 0 OP_Read s0)"
  have s0: "os_ora s0 = ora" "os_now s0 = now" "os_pc s0 h = OP_Idle" "os_asked s0 = []" for h
    by (simp_all add: s0_def oracle_sys_init_def)
  have "?R s0 (move 0 OP_Read s0)" by (rule oracle_step.tick) (simp add: s0)
  moreover have "?R (move 0 OP_Read s0) s1"
    unfolding s1_def by (rule oracle_step.check[where snaps = "[]"]) (use assms in \<open>simp_all add: s0 shouldCall_def\<close>)
  ultimately have r1: "?R\<^sup>*\<^sup>* s0 s1" by (meson rtranclp.rtrancl_into_rtrancl rtranclp.rtrancl_refl)
  obtain sn0 where r2: "?R\<^sup>*\<^sup>* s1 (move 0 (OP_Call sn0 now) s1)"
    using due_decides[of s1 0 save] assms by (auto simp: s1_def s0)
  obtain sn1 where r3: "?R\<^sup>*\<^sup>* (move 0 (OP_Call sn0 now) s1) (move 1 (OP_Call sn1 now) (move 0 (OP_Call sn0 now) s1))"
    using due_decides[of "move 0 (OP_Call sn0 now) s1" 1 save] assms by (auto simp: s1_def s0)
  obtain s2 where r4: "?R\<^sup>*\<^sup>* (move 1 (OP_Call sn1 now) (move 0 (OP_Call sn0 now) s1)) s2"
    and s2: "os_asked s2 = [(0, now)]" "os_pc s2 1 = OP_Call sn1 now"
    using called_records[of "move 1 (OP_Call sn1 now) (move 0 (OP_Call sn0 now) s1)" 0 sn0 now save]
    by (auto simp: s1_def s0)
  obtain s3 where r5: "?R\<^sup>*\<^sup>* s2 s3" and s3: "os_asked s3 = [(1, now), (0, now)]"
    using called_records[of s2 1 sn1 now save] s2 by auto
  have "?R\<^sup>*\<^sup>* s0 s3" using r1 r2 r3 r4 r5 by (meson rtranclp_trans)
  with s3 show ?thesis by (auto simp: s0_def asks_of_def intro!: exI[of _ s3])
qed

end
