(* ===== verification/Percentile.thy ===== *)
theory Percentile
  imports Collector
begin

text \<open>
  What the estimate of \<open>histogramP95\<close> estimates: the 95th percentile by nearest rank of the samples the
  histogram counts. The code's target, a product of two roundings, picks exactly the rank
  \<open>\<lceil>0.95 n\<rceil>\<close> as long as there are at most \<open>2^48\<close> samples.
\<close>

section \<open>The rank\<close>

lemma round_exp_95: "round_exp (95 / 100) = - 53"
proof -
  have "(2::rat) powi ilog2 (95 / 100) < 2 powi 0" "2 powi (- 1) < (2::rat) powi (ilog2 (95 / 100) + 1)"
    using ilog2_bounds[of "95 / 100"] by simp_all
  then have "ilog2 (95 / 100) = - 1" by (simp only: powi_less_iff)
  then show ?thesis by (simp add: round_exp_def)
qed

lemma rnd_95: "rnd (95 / 100) = 8556839292003942 / 2 ^ 53"
proof -
  have e: "(95 / 100 :: rat) / 2 powi (- 53) = 95 * 2 ^ 53 / 100" by (simp add: power_int_minus)
  have f: "\<lfloor>(95 * 2 ^ 53 / 100 :: rat)\<rfloor> = 8556839292003942" by (simp add: floor_eq_iff)
  have "round_half_even (95 * 2 ^ 53 / 100) = 8556839292003942"
    unfolding round_half_even_def Let_def f by simp
  then show ?thesis unfolding rnd_def round_pos_def round_exp_95 e by (simp add: power_int_minus)
qed

definition p95_rank :: "int \<Rightarrow> int" where
  "p95_rank n = \<lceil>95 / 100 * (of_int n :: rat)\<rceil>"

lemma p95_rank_bounds:
  assumes "0 < n"
  shows "1 \<le> p95_rank n" "p95_rank n \<le> n"
  using assms by (simp_all add: p95_rank_def ceiling_le_iff)

text \<open>The next multiple of a sixty-fourth above the rank's predecessor is a float64 below the target.\<close>

lemma p95_target_rank:
  assumes "0 < uint n" "uint n \<le> 2 ^ 46"
  shows "\<exists>t. p95_target n = Fin t \<and> \<lceil>t\<rceil> = p95_rank (uint n)"
proof -
  define k where "k = uint n"
  define m where "m = p95_rank k"
  define c :: rat where "c = rnd (95 / 100)"
  let ?q = "95 / 100 * of_int k :: rat" and ?t = "rnd (c * of_int k)"
  have k: "0 < k" "k \<le> 2 ^ 46" using assms by (simp_all add: k_def)
  then have k': "0 < (of_int k :: rat)" "of_int k \<le> (2 ^ 46 :: rat)" by (simp_all flip: of_int_le_iff)
  have m: "1 \<le> m" "m \<le> 2 ^ 46" using p95_rank_bounds[OF k(1)] k(2) by (simp_all add: m_def)
  have c: "c \<le> 95 / 100" "95 / 100 - 1 / 2 ^ 53 \<le> c" unfolding c_def rnd_95 by simp_all
  have cq: "c * of_int k \<le> ?q" using c(1) k' by (intro mult_right_mono) simp_all
  also have "?q \<le> of_int m" by (simp add: m_def p95_rank_def)
  finally have "?t \<le> of_int m" using m by (intro rnd_le representable_int) simp_all
  moreover have "of_int m - 1 < ?t"
  proof -
    have "(of_int (m - 1) :: rat) < ?q" using ceiling_correct[of ?q] by (simp add: m_def p95_rank_def)
    then have "of_int (20 * (m - 1)) < (of_int (19 * k) :: rat)" by simp
    then have "20 * (m - 1) < 19 * k" by (simp only: of_int_less_iff)
    then have "20 * (m - 1) + 1 \<le> 19 * k" by simp
    then have "of_int (20 * (m - 1) + 1) \<le> (of_int (19 * k) :: rat)" by (simp only: of_int_le_iff)
    then have "of_int (m - 1) + 1 / 20 \<le> ?q" by simp
    moreover have "?q - 1 / 2 ^ 53 * of_int k \<le> c * of_int k"
      using mult_right_mono[OF c(2), of "of_int k"] k' by (simp add: algebra_simps)
    moreover have "1 / 2 ^ 53 * of_int k \<le> (1 / 128 :: rat)" using k'(2) by simp
    ultimately have "of_int (m - 1) + 1 / 64 \<le> c * of_int k" by linarith
    moreover have "representable (of_int (m - 1) + 1 / 64)"
      unfolding representable_def
      by (intro exI[of _ "64 * (m - 1) + 1"] exI[of _ "- 6"]) (use m in \<open>simp add: power_int_minus field_simps\<close>)
    ultimately have "of_int (m - 1) + 1 / 64 \<le> ?t" by (rule rnd_ge)
    then show ?thesis by simp
  qed
  ultimately have "\<lceil>?t\<rceil> = m" by (simp add: ceiling_eq_iff)
  moreover have "p95_target n = Fin ?t"
  proof -
    have "0 \<le> c * of_int k" using c(2) k' by simp
    moreover have "c * of_int k \<le> 2 ^ 1023"
    proof -
      have "c * of_int k \<le> 2 ^ 46" using cq k' by linarith
      also have "(2::rat) ^ 46 \<le> 2 ^ 1023" by (rule power_increasing) simp_all
      finally show ?thesis .
    qed
    moreover have "fl (95 / 100) = Fin c" unfolding c_def by (rule fl_Fin) simp
    moreover have "f64_of_int k = Fin (of_int k)" using k by (intro f64_of_int_exact) simp
    ultimately show ?thesis by (simp add: p95_target_def fl_Fin flip: k_def)
  qed
  ultimately show ?thesis by (simp add: m_def k_def)
qed

section \<open>The samples and the buckets\<close>

text \<open>
  The histogram of a list of samples, as the Prometheus client keeps it: all are counted, and a bucket
  counts those at or below its bound.
\<close>

definition counts_samples :: "rat list \<Rightarrow> histogram \<Rightarrow> bool" where
  "counts_samples xs h \<longleftrightarrow>
     uint (h_count h) = int (length xs) \<and>
     (\<forall>b\<in>set (h_buckets h). \<forall>u. b_upper b = Fin u \<longrightarrow> uint (b_cum b) = int (length (filter (\<lambda>x. x \<le> u) xs)))"

text \<open>The percentile by nearest rank: of the samples in order, the one at that rank, counted from 1.\<close>

definition true_p95 :: "rat list \<Rightarrow> rat" where
  "true_p95 xs = sort xs ! nat (p95_rank (int (length xs)) - 1)"

lemma sorted_nth_le_iff:
  fixes xs :: "rat list"
  assumes "sorted xs" "k < length xs"
  shows "xs ! k \<le> u \<longleftrightarrow> k < length (filter (\<lambda>x. x \<le> u) xs)"
  using assms
proof (induction xs arbitrary: k)
  case (Cons x xs)
  show ?case
  proof (cases "x \<le> u")
    case True
    then show ?thesis using Cons by (cases k) auto
  next
    case False
    then have "filter (\<lambda>x. x \<le> u) (x # xs) = []" using Cons.prems(1) by (auto simp: filter_empty_conv)
    moreover have "\<not> (x # xs) ! k \<le> u"
      using Cons.prems False nth_mem[OF Cons.prems(2)] by (auto simp del: nth_mem)
    ultimately show ?thesis by simp
  qed
qed simp

lemma true_p95_le_iff:
  assumes "0 < length xs"
  shows "true_p95 xs \<le> u \<longleftrightarrow> p95_rank (int (length xs)) \<le> int (length (filter (\<lambda>x. x \<le> u) xs))"
proof -
  let ?m = "p95_rank (int (length xs))"
  have m: "1 \<le> ?m" "?m \<le> int (length xs)" using p95_rank_bounds assms by simp_all
  have "length (filter (\<lambda>x. x \<le> u) (sort xs)) = length (filter (\<lambda>x. x \<le> u) xs)"
    by (simp add: filter_sort)
  then show ?thesis
    using sorted_nth_le_iff[of "sort xs" "nat (?m - 1)" u] m by (simp add: true_p95_def) linarith
qed

text \<open>A bucket reaches the target exactly when the percentile is at or below its bound.\<close>

lemma reaches_iff:
  assumes "counts_samples xs h" "0 < length xs" "length xs \<le> 2 ^ 46" "b \<in> set (h_buckets h)" "b_upper b = Fin u"
  shows "reaches (p95_target (h_count h)) b \<longleftrightarrow> true_p95 xs \<le> u"
proof -
  have n: "uint (h_count h) = int (length xs)" using assms(1) by (simp add: counts_samples_def)
  have c: "uint (b_cum b) = int (length (filter (\<lambda>x. x \<le> u) xs))"
    using assms(1,4,5) by (simp add: counts_samples_def)
  have "uint (b_cum b) \<le> int (length xs)" unfolding c by simp
  then have "f64_of_int (uint (b_cum b)) = Fin (of_int (uint (b_cum b)))"
    using assms(3) by (intro f64_of_int_exact) simp
  moreover obtain t where "p95_target (h_count h) = Fin t" "\<lceil>t\<rceil> = p95_rank (int (length xs))"
    using p95_target_rank[of "h_count h"] assms(2,3) n by auto
  moreover have "t \<le> of_int (uint (b_cum b)) \<longleftrightarrow> \<lceil>t\<rceil> \<le> uint (b_cum b)" for t :: rat
    by (simp add: ceiling_le_iff)
  ultimately show ?thesis using true_p95_le_iff[OF assms(2), of u] by (simp add: reaches_def c)
qed

section \<open>The histogram\<close>

lemma good_bucket_Fin:
  assumes "good_histogram h" "b \<in> set (h_buckets h)"
  shows "\<exists>u. b_upper b = Fin u"
proof -
  have "good_from pb bs \<Longrightarrow> b \<in> set bs \<Longrightarrow> \<exists>u. b_upper b = Fin u" for pb bs
    by (induction pb bs rule: good_from.induct) (auto split: f64.splits)
  with assms show ?thesis unfolding good_histogram_def by blast
qed

text \<open>When no bucket reaches the target the estimate is the last bound.\<close>

lemma histogramP95_none:
  assumes "h_count h \<noteq> 0" "\<forall>b\<in>set (h_buckets h). \<not> reaches (p95_target (h_count h)) b" "h_buckets h \<noteq> []"
  shows "histogramP95 h = b_upper (last (h_buckets h)) * Fin 1000"
  using assms by (simp add: histogramP95_def p95_loop_none)

section \<open>The estimate and the percentile\<close>

text \<open>The P95 estimate lies in the bucket of the true percentile: for a histogram of up to \<open>2^46\<close>
  samples, the 95th percentile of the samples by nearest rank and the estimate are between the same two
  bounds (the estimate in milliseconds, up to five float64 roundings above), or the percentile is above
  the last bound and the estimate is that bound.\<close>

lemma p95_in_percentile_bucket:
  assumes "good_histogram h" "h_buckets h \<noteq> []" "counts_samples xs h" "0 < length xs" "length xs \<le> 2 ^ 46"
  shows "(\<exists>i lo hi r. i < length (h_buckets h) \<and> prev_bound (h_buckets h) i = Fin lo \<and>
      b_upper (h_buckets h ! i) = Fin hi \<and> histogramP95 h = Fin r \<and>
      (i = 0 \<or> lo < true_p95 xs) \<and> true_p95 xs \<le> hi \<and> rnd (lo * 1000) \<le> r \<and> r \<le> hi * 1000 * up1 ^ 5) \<or>
    (\<exists>hi. b_upper (last (h_buckets h)) = Fin hi \<and> hi < true_p95 xs \<and> histogramP95 h = Fin hi * Fin 1000)"
  (is "?inside \<or> ?above")
proof (cases "\<exists>b\<in>set (h_buckets h). reaches (p95_target (h_count h)) b")
  case True
  have n: "h_count h \<noteq> 0" using assms(3,4) by (auto simp: counts_samples_def)
  from first_reaching[OF True] obtain i where i: "i < length (h_buckets h)"
    "reaches (p95_target (h_count h)) (h_buckets h ! i)"
    "\<forall>j<i. \<not> reaches (p95_target (h_count h)) (h_buckets h ! j)" by blast
  from histogramP95_in_bucket[OF assms(1) n i] obtain lo hi r where
    r: "prev_bound (h_buckets h) i = Fin lo" "b_upper (h_buckets h ! i) = Fin hi" "histogramP95 h = Fin r"
      "rnd (lo * 1000) \<le> r" "r \<le> hi * 1000 * up1 ^ 5" by blast
  note bucket = reaches_iff[OF assms(3-5)]
  have "true_p95 xs \<le> hi" using bucket[OF nth_mem[OF i(1)] r(2)] i(2) by simp
  moreover have "i = 0 \<or> lo < true_p95 xs"
  proof (cases i)
    case (Suc j)
    then have j: "j < length (h_buckets h)" "b_upper (h_buckets h ! j) = Fin lo"
      using i(1) r(1) by (simp_all add: prev_bound_def)
    from bucket[OF nth_mem[OF j(1)] j(2)] i(3) Suc show ?thesis by auto
  qed simp
  ultimately have ?inside using i(1) r by blast
  then show ?thesis ..
next
  case False
  have n: "h_count h \<noteq> 0" using assms(3,4) by (auto simp: counts_samples_def)
  have l: "last (h_buckets h) \<in> set (h_buckets h)" using assms(2) by simp
  from good_bucket_Fin[OF assms(1) l] obtain hi where hi: "b_upper (last (h_buckets h)) = Fin hi" by blast
  from reaches_iff[OF assms(3-5) l hi] False l have "hi < true_p95 xs" by auto
  moreover have "histogramP95 h = Fin hi * Fin 1000"
    using histogramP95_none[OF n] False hi assms(2) by simp
  ultimately have ?above using hi by blast
  then show ?thesis ..
qed

end
