(* ===== verification/Durations.thy ===== *)
theory Durations
  imports Percentile Registry
begin

text \<open>
  The percentile of the duration histogram with the buckets the program has: how good the estimate
  is. The bounds in seconds are float64 values next to the decimal ones; what the proofs need of
  them is computed.
\<close>

section \<open>The buckets\<close>

definition duration_bounds :: "rat list" where
  "duration_bounds =
     [5764607523034235 / 1152921504606846976, 5764607523034235 / 576460752303423488,
      3602879701896397 / 144115188075855872, 3602879701896397 / 72057594037927936,
      3602879701896397 / 36028797018963968, 1 / 4, 1 / 2, 1, 5 / 2, 5]"

lemma rounded_bounds:
  "map rnd [5 / 1000, 1 / 100, 25 / 1000, 5 / 100, 1 / 10, 25 / 100, 5 / 10, 1, 25 / 10, 5] = duration_bounds"
  by code_simp

lemma buckets_bounds: "RequestDuration_buckets = map Fin duration_bounds"
proof -
  have "fl x = Fin (rnd x)" if "x \<in> set [5 / 1000, 1 / 100, 25 / 1000, 5 / 100, 1 / 10, 25 / 100, 5 / 10, 1, 25 / 10, 5]" for x
    using that by (intro fl_Fin) auto
  then show ?thesis unfolding RequestDuration_buckets_def rounded_bounds[symmetric] by (simp del: rnd_numeral)
qed

lemma duration_bounds_length: "length duration_bounds = 10" "last duration_bounds = 5"
  by (simp_all add: duration_bounds_def)

text \<open>Every bound is representable, and at least a thousandth above the one before it.\<close>

lemma duration_bounds_rnd: "map rnd duration_bounds = duration_bounds"
  by code_simp

lemma duration_bounds_good:
  "list_all (\<lambda>(lo, hi). rnd hi = hi \<and> lo + 1 / 1000 \<le> hi \<and> hi \<le> 5) (zip (0 # duration_bounds) duration_bounds)"
proof -
  have "list_all (\<lambda>(lo, hi). lo + 1 / 1000 \<le> hi \<and> hi \<le> 5) (zip (0 # duration_bounds) duration_bounds)"
    by (simp add: duration_bounds_def)
  moreover have "rnd u = u" if "u \<in> set duration_bounds" for u
    using duration_bounds_rnd that by (metis map_eq_conv map_ident)
  ultimately show ?thesis by (auto simp: list_all_iff dest: set_zip_rightD)
qed

text \<open>In milliseconds the bounds are the decimal ones; from one to the next is a factor of two and a half at most.\<close>

definition p95_slack :: rat where
  "p95_slack = 1 / 2 ^ 50"

lemma duration_bounds_ms:
  "map (\<lambda>u. rnd (u * 1000)) duration_bounds = [5, 10, 25, 50, 100, 250, 500, 1000, 2500, 5000]"
  by code_simp

lemma up1_value: "up1 = 9007199254740993 / 9007199254740992"
  by (simp add: up1_def)

lemma duration_bounds_factor:
  "list_all (\<lambda>((lo, ms), hi). hi * up1 ^ 5 \<le> 5 / 2 * lo * (1 + p95_slack) \<and> 2 / 5 * hi * 1000 * (1 - p95_slack) \<le> ms)
     (zip (zip duration_bounds (map (\<lambda>u. rnd (u * 1000)) duration_bounds)) (tl duration_bounds))"
  unfolding duration_bounds_ms by (simp add: duration_bounds_def up1_value p95_slack_def power_divide)

lemma first_bucket_factor: "hd duration_bounds * 1000 * up1 ^ 5 \<le> 5 * (1 + p95_slack)"
  and first_bucket_pos: "0 \<le> hd duration_bounds"
  and last_bucket_factor: "5 * 1000 * up1 ^ 5 \<le> 5000 * (1 + p95_slack)"
  by (simp_all add: duration_bounds_def up1_value p95_slack_def power_divide)

section \<open>The histogram of the program\<close>

lemma tiny_le: "tiny \<le> 1 / 1000"
proof -
  have "(2::rat) powi (- 900) \<le> 2 powi (- 10)" by (simp only: powi_le_iff)
  also have "(2::rat) powi (- 10) \<le> 1 / 1000" by simp
  finally show ?thesis by (simp add: tiny_def)
qed

lemma max_bound_ge: "5 \<le> max_bound"
proof -
  have "(2::rat) ^ 3 \<le> 2 ^ 900" by (rule power_increasing) simp_all
  then show ?thesis by (simp add: max_bound_def)
qed

lemma uint_count: "n \<le> 2 ^ 53 \<Longrightarrow> uint (of_nat n :: uint64) = int n"
proof -
  assume "n \<le> 2 ^ 53"
  then have "n < 2 ^ 64" by (rule le_less_trans) simp
  then have "int n < 2 ^ 64" by (simp flip: of_nat_less_iff)
  then show ?thesis by (simp add: unsigned_of_nat take_bit_nat_eq_self_iff)
qed

lemma hist_of_good:
  assumes "length vs \<le> 2 ^ 53"
  shows "good_histogram (hist_of RequestDuration_buckets vs)"
proof -
  let ?b = "\<lambda>u. \<lparr>b_cum = of_nat (length (filter (\<lambda>v. v \<le> Fin u) vs)), b_upper = Fin u\<rparr>"
  have c: "uint (of_nat (length (filter P vs)) :: uint64) \<le> 2 ^ 53" for P
  proof -
    have "length (filter P vs) \<le> 2 ^ 53" using assms length_filter_le[of P vs] by linarith
    then show ?thesis using uint_count[of "length (filter P vs)"] by (simp flip: of_nat_le_iff)
  qed
  have "list_all (\<lambda>(lo, hi). rnd hi = hi \<and> lo + 1 / 1000 \<le> hi \<and> hi \<le> 5) (zip (pb # us) us) \<Longrightarrow>
      good_from pb (map ?b us)" for pb us
  proof (induction us arbitrary: pb)
    case (Cons u us)
    then show ?case using c tiny_le max_bound_ge by (auto intro: order_trans)
  qed simp
  from this[OF duration_bounds_good] uint_count[OF assms] assms show ?thesis
    by (simp add: good_histogram_def hist_of_def buckets_bounds comp_def flip: of_nat_le_iff)
qed

lemma hist_of_counts:
  assumes "length xs \<le> 2 ^ 53"
  shows "counts_samples xs (hist_of RequestDuration_buckets (map Fin xs))"
proof -
  have f: "length (filter ((\<lambda>v. fle v (Fin u)) \<circ> Fin) xs) = length (filter (\<lambda>x. x \<le> u) xs)" for u
    by (simp add: comp_def)
  have c: "uint (of_nat (length (filter (\<lambda>x. x \<le> u) xs)) :: uint64) = int (length (filter (\<lambda>x. x \<le> u) xs))" for u
  proof (rule uint_count)
    show "length (filter (\<lambda>x. x \<le> u) xs) \<le> 2 ^ 53" using assms length_filter_le[of "\<lambda>x. x \<le> u" xs] by linarith
  qed
  show ?thesis
    using uint_count[OF assms] by (auto simp: counts_samples_def hist_of_def buckets_bounds f c filter_map)
qed

section \<open>How far the estimate is off\<close>

lemma duration_nth:
  assumes "i < 9"
  shows "duration_bounds ! Suc i * up1 ^ 5 \<le> 5 / 2 * duration_bounds ! i * (1 + p95_slack)"
    "2 / 5 * duration_bounds ! Suc i * 1000 * (1 - p95_slack) \<le> rnd (duration_bounds ! i * 1000)"
  using duration_bounds_factor assms
  by (auto simp: list_all_length duration_bounds_length nth_tl)

lemma duration_range:
  assumes "i < 10"
  shows "hd duration_bounds \<le> duration_bounds ! i" "duration_bounds ! i \<le> 5"
proof -
  have "list_all (\<lambda>u. hd duration_bounds \<le> u \<and> u \<le> 5) duration_bounds" by (simp add: duration_bounds_def)
  with assms show "hd duration_bounds \<le> duration_bounds ! i" "duration_bounds ! i \<le> 5"
    by (auto simp: list_all_length duration_bounds_length)
qed

lemma p95_estimate:
  assumes "xs \<noteq> []" "length xs \<le> 2 ^ 46"
  defines "r \<equiv> histogramP95 (hist_of RequestDuration_buckets (map Fin xs))"
  shows "(5 < true_p95 xs \<and> r = Fin 5000) \<or>
    (true_p95 xs \<le> hd duration_bounds \<and> (\<exists>q. r = Fin q \<and> 0 \<le> q \<and> q \<le> 5 * (1 + p95_slack))) \<or>
    (hd duration_bounds < true_p95 xs \<and> true_p95 xs \<le> 5 \<and>
      (\<exists>q. r = Fin q \<and> 0 \<le> q \<and> 2 / 5 * (true_p95 xs * 1000) * (1 - p95_slack) \<le> q \<and>
         q \<le> 5 / 2 * (true_p95 xs * 1000) * (1 + p95_slack) \<and> q \<le> 5000 * (1 + p95_slack)))"
proof -
  let ?h = "hist_of RequestDuration_buckets (map Fin xs)" and ?p = "true_p95 xs"
  have l: "length xs \<le> 2 ^ 53" using assms(2) by simp
  have b: "h_buckets ?h \<noteq> []" "length (h_buckets ?h) = 10"
    "\<And>i. i < 10 \<Longrightarrow> b_upper (h_buckets ?h ! i) = Fin (duration_bounds ! i)"
    "b_upper (last (h_buckets ?h)) = Fin 5"
    by (simp_all add: hist_of_def buckets_bounds duration_bounds_def nth_Cons' last_map)
  have g: "good_histogram ?h" using l by (intro hist_of_good) simp
  have pos: "0 < length xs" using assms(1) by simp
  have slack: "0 \<le> 1 - p95_slack" "0 \<le> 1 + p95_slack" by (simp_all add: p95_slack_def)
  consider (inside) i lo hi q where "i < length (h_buckets ?h)" "prev_bound (h_buckets ?h) i = Fin lo"
      "b_upper (h_buckets ?h ! i) = Fin hi" "histogramP95 ?h = Fin q" "i = 0 \<or> lo < ?p" "?p \<le> hi"
      "rnd (lo * 1000) \<le> q" "q \<le> hi * 1000 * up1 ^ 5"
    | (above) hi where "b_upper (last (h_buckets ?h)) = Fin hi" "hi < ?p" "histogramP95 ?h = Fin hi * Fin 1000"
    using p95_in_percentile_bucket[OF g b(1) hist_of_counts[OF l] pos assms(2)] by blast
  then show ?thesis
  proof cases
    case inside
    note i = inside(1-3) and q = inside(4,7,8,6) and above = inside(5)
    have hi: "hi = duration_bounds ! i" "i < 10" using i b(2,3) by auto
    show ?thesis
    proof (cases i)
      case 0
      then have "lo = 0" "hi = hd duration_bounds" using i(2) hi by (simp_all add: prev_bound_def duration_bounds_def)
      with q first_bucket_factor show ?thesis unfolding r_def by auto
    next
      case (Suc j)
      then have j: "j < 9" "lo = duration_bounds ! j" "lo < ?p" using i(2) hi b(3)[of j] above by (auto simp: prev_bound_def)
      have "hd duration_bounds < ?p" "?p \<le> 5"
        using duration_range(1)[of j] duration_range(2)[of i] j hi q(4) by simp_all
      moreover have "2 / 5 * (?p * 1000) * (1 - p95_slack) \<le> 2 / 5 * hi * 1000 * (1 - p95_slack)"
        using q(4) slack by (intro mult_right_mono) simp_all
      then have "2 / 5 * (?p * 1000) * (1 - p95_slack) \<le> q"
        using duration_nth(2)[OF j(1)] q(2) j(2) hi(1) Suc by simp
      moreover have "hi * up1 ^ 5 * 1000 \<le> 5 / 2 * lo * (1 + p95_slack) * 1000"
        using duration_nth(1)[OF j(1)] j(2) hi(1) Suc by (intro mult_right_mono) simp_all
      then have "q \<le> 5 / 2 * lo * (1 + p95_slack) * 1000" using q(3) by (simp add: mult_ac)
      then have "q \<le> 5 / 2 * (lo * 1000) * (1 + p95_slack)" by (simp only: mult_ac)
      then have "q \<le> 5 / 2 * (?p * 1000) * (1 + p95_slack)"
        by (rule order_trans) (use j(3) slack in \<open>intro mult_right_mono mult_left_mono, simp_all\<close>)
      moreover have "0 \<le> q"
        using rnd_nonneg[of "lo * 1000"] duration_range(1)[of j] j(1,2) q(2) first_bucket_pos by simp
      moreover have "hi * 1000 * up1 ^ 5 \<le> 5 * 1000 * up1 ^ 5"
        using duration_range(2)[OF hi(2)] hi(1) up1_ge by (intro mult_right_mono) simp_all
      then have "q \<le> 5000 * (1 + p95_slack)" using q(3) last_bucket_factor by simp
      ultimately show ?thesis using q(1) unfolding r_def by blast
    qed
  next
    case above
    then show ?thesis using b(4) unfolding r_def by (simp add: fl_Fin)
  qed
qed

end
