(* ===== verification/Observe_Props.thy ===== *)
theory Observe_Props
  imports Oracle_Race Signals Durations
begin

text \<open>
  The properties of what watches the traffic: the snapshots of the metrics and their percentile,
  the rates of the aggregator, when the Oracle asks and what becomes of an answer, and the stored
  signals as their HTTP interface shows them.
\<close>

section \<open>Snapshots\<close>

text \<open>C27: The P95 a snapshot reports for a gate, from what was observed of it through the registry to the
  estimate, against the true 95th percentile by nearest rank of up to \<open>2^46\<close> observations: above the first
  bound of 5 ms and up to 5 s it is within a factor of two and a half of it, at or below the first bound
  it is at most 5 ms, and beyond 5 s it is stuck at exactly 5000 ms; so it never exceeds 5000 ms by
  more than a rounding, and a latency threshold above that cannot fire.\<close>

theorem p95_accuracy:
  assumes "registry_ok ops mfs" "samples gate ops = map Fin xs" "xs \<noteq> []" "length xs \<le> 2 ^ 46"
  shows "\<exists>q. map ms_P95Ms (Snapshots (Some mfs) [gate]) = [Fin q] \<and> 0 \<le> q \<and> q \<le> 5000 * (1 + p95_slack) \<and>
    (if 5 < true_p95 xs then q = 5000
     else if true_p95 xs \<le> hd duration_bounds then q \<le> 5 * (1 + p95_slack)
     else 2 / 5 * (true_p95 xs * 1000) * (1 - p95_slack) \<le> q \<and> q \<le> 5 / 2 * (true_p95 xs * 1000) * (1 + p95_slack))"
proof -
  let ?r = "histogramP95 (hist_of RequestDuration_buckets (map Fin xs))" and ?p = "true_p95 xs"
  have "map ms_P95Ms (Snapshots (Some mfs) [gate]) = [?r]"
    using snapshot_p95[OF assms(1), of gate] assms(2,3) by (simp add: Snapshots_def)
  moreover have "(0::rat) \<le> p95_slack" by (simp add: p95_slack_def)
  moreover have "(hd duration_bounds :: rat) \<le> 5" by (simp add: duration_bounds_def)
  moreover note p95_estimate[OF assms(3,4)]
  ultimately show ?thesis by (auto intro: order_trans)
qed

definition slow_half :: "metric_op list" where
  "slow_half =
     InitGate ''g'' @ [HistObserve ''g'' (Fin 9), HistObserve ''h'' (Fin 1), HistObserve ''g'' (Fin 8), HistObserve ''g'' (Fin (1 / 4))]"

lemma slow_half_p95: "true_p95 [0, 9, 8, 1 / 4] = 9"
proof -
  have "sort [0, 9, 8, 1 / 4 :: rat] = [0, 1 / 4, 8, 9]" by simp
  moreover have "p95_rank 4 = 4" by code_simp
  ultimately show ?thesis by (simp add: true_p95_def)
qed

theorem p95_accuracy_witness: "map ms_P95Ms (Snapshots (Some (gather_all slow_half)) [''g'']) = [Fin 5000]"
  using p95_accuracy[OF gather_all_ok[of slow_half], of "''g''" "[0, 9, 8, 1 / 4]"]
  by (auto simp: slow_half_def InitGate_def slow_half_p95)

text \<open>\<open>Snapshots\<close> returns one record per gate, in the order asked for: its totals are the sums over all
  series of the gate in all families of the name, other gates' series and other families do not
  count, and its P95 is that of the gate's last histogram (0 without one).\<close>

lemma snapshots_sum_series:
  assumes "i < length gates"
  shows "length (Snapshots (Some mfs) gates) = length gates \<and>
    ms_Gate (Snapshots (Some mfs) gates ! i) = gates ! i \<and>
    ms_ReqTotal (Snapshots (Some mfs) gates ! i) = gate_sum (gates ! i) (series ''centauri_requests_total'' mfs) \<and>
    ms_ErrTotal (Snapshots (Some mfs) gates ! i) = gate_sum (gates ! i) (series ''centauri_errors_total'' mfs) \<and>
    ms_P95Ms (Snapshots (Some mfs) gates ! i) =
      (case filter (\<lambda>m. labelValue (mt_labels m) ''gate'' = gates ! i)
         (series ''centauri_request_duration_seconds'' mfs) of
         [] \<Rightarrow> Fin 0 | m # ms \<Rightarrow> histogramP95 (mt_histogram (last (m # ms))))"
  using assms
  by (simp add: Snapshots_def snap_of_def foldl_read_req foldl_read_err foldl_read_hist put_histogram_last get0_def[of Map.empty]
      split: list.split)

definition ok_series :: "string \<Rightarrow> string \<Rightarrow> rat \<Rightarrow> metric" where
  "ok_series gate code n =
     \<lparr>mt_labels = [(''gate'', gate), (''status_code'', code)], mt_counter = Fin n,
      mt_histogram = \<lparr>h_count = 0, h_buckets = []\<rparr>\<rparr>"

theorem snapshots_sum_series_witness:
  "ms_ReqTotal (Snapshots (Some [\<lparr>mf_name = ''centauri_requests_total'',
      mf_metrics = [ok_series ''g'' ''200'' 3, ok_series ''h'' ''200'' 9, ok_series ''g'' ''502'' 2]\<rparr>]) [''h'', ''g''] ! 1) = 5"
proof -
  let ?mfs = "[\<lparr>mf_name = ''centauri_requests_total'',
      mf_metrics = [ok_series ''g'' ''200'' 3, ok_series ''h'' ''200'' 9, ok_series ''g'' ''502'' 2]\<rparr>]"
  have "gate_sum ''g'' (series ''centauri_requests_total'' ?mfs) = 5" by code_simp
  with snapshots_sum_series[of 1 "[''h'', ''g'']" ?mfs] show ?thesis by simp
qed

text \<open>C29: In the round after one with the same gate, the rate is the growth of the total over the interval,
  the error rate is a fraction of that growth: finite, not negative, and at most 1 when the errors grew
  by no more than the requests.\<close>

theorem rates_are_growth:
  assumes "distinct (map ms_Gate first)" "c \<in> set first" "ms_Gate cur = ms_Gate c"
    "0 \<le> sint (ms_ReqTotal c)" "sint (ms_ReqTotal c) \<le> sint (ms_ReqTotal cur)"
    "0 \<le> sint (ms_ErrTotal c)" "sint (ms_ErrTotal c) \<le> sint (ms_ErrTotal cur)" "0 < secs"
  shows "gs_ReqPerSec (hd (buildSnapshot [cur] (buildSnapshot first prev s0) secs)) =
      f64_of_int (sint (ms_ReqTotal cur) - sint (ms_ReqTotal c)) / secs \<and>
    (\<exists>r. gs_ErrorRate (hd (buildSnapshot [cur] (buildSnapshot first prev s0) secs)) = Fin r \<and> 0 \<le> r \<and>
       (sint (ms_ErrTotal cur) - sint (ms_ErrTotal c) \<le> sint (ms_ReqTotal cur) - sint (ms_ReqTotal c) \<longrightarrow> r \<le> 1))"
proof -
  let ?pm = "prev_map (buildSnapshot first prev s0)"
  note p = second_round_totals[OF assms(1-3), of prev s0]
  have g: "guard_interval secs = secs" using assms(8) by (cases secs) (auto simp: guard_interval_def)
  have h: "hd (buildSnapshot [cur] (buildSnapshot first prev s0) secs) = build_one ?pm secs cur"
    by (simp add: buildSnapshot_def g)
  have dr: "sint (delta (ms_ReqTotal cur) (Some (ms_ReqTotal c))) = sint (ms_ReqTotal cur) - sint (ms_ReqTotal c)"
    by (rule delta_growth[OF assms(4,5)])
  have de: "sint (delta (ms_ErrTotal cur) (Some (ms_ErrTotal c))) = sint (ms_ErrTotal cur) - sint (ms_ErrTotal c)"
    by (rule delta_growth[OF assms(6,7)])
  have "gs_ReqPerSec (build_one ?pm secs cur) = f64_of_int (sint (ms_ReqTotal cur) - sint (ms_ReqTotal c)) / secs"
    by (simp add: build_one_def Let_def p dr)
  moreover have "0 \<le> sint (ms_ReqTotal cur)" "0 \<le> sint (ms_ErrTotal cur)" using assms(4-7) by linarith+
  ultimately show ?thesis using error_rate_bounds[of cur ?pm secs] unfolding h p dr de by simp
qed

definition total_of :: "int64 \<Rightarrow> int64 \<Rightarrow> metrics_snapshot" where
  "total_of req err = \<lparr>ms_Gate = ''g'', ms_ReqTotal = req, ms_ErrTotal = err, ms_P95Ms = Fin 0\<rparr>"

theorem rates_are_growth_witness:
  "gs_ReqPerSec (hd (buildSnapshot [total_of 400 20] (buildSnapshot [total_of 100 10] [] (Fin 30)) (Fin 30))) =
    f64_of_int 300 / Fin 30"
  using rates_are_growth[of "[total_of 100 10]" "total_of 100 10" "total_of 400 20" "Fin 30" "[]" "Fin 30"]
  by (simp add: total_of_def)

section \<open>The Oracle\<close>


definition quiet_config :: oracle_config where
  "quiet_config =
     \<lparr>oc_Enabled = True, oc_APIKey = ''k'', oc_Model = '''', oc_IntervalSeconds = 0,
      oc_ThreatDetection = False, oc_ScalingAdvisor = False, oc_ErrorRateThreshold = Fin 0,
      oc_P95LatencyThreshold = Fin 0\<rparr>"

definition answer_at :: "int \<Rightarrow> string \<Rightarrow> world" where
  "answer_at t kind =
     \<lparr>wd_read = t, wd_decide = t, wd_record = t, wd_gather = None,
      wd_client = (\<lambda>model system user. Inr [user]),
      wd_unjson = (\<lambda>_. Inr \<lparr>rs_Kind = kind, rs_Level = ''high'', rs_Gate = ''g'', rs_Summary = ''s'',
        rs_Reasoning = ''r'', rs_Action = ''a''\<rparr>)\<rparr>"




text \<open>C32: The two together can: whenever a call is due, there is a run in which both goroutines decide to ask
  at the same moment, because the decision and the note that Claude was asked are separate critical
  sections with the call between them.\<close>

theorem oracle_goroutines_both_ask:
  assumes "interval_over ora now"
  shows "\<exists>s. (oracle_step save)\<^sup>*\<^sup>* (oracle_sys_init ora db now) s \<and> asks_of 0 s = [now] \<and> asks_of 1 s = [now]"
  by (rule both_ask[OF assms])

lemma new_oracle_due: "interval_over (newWithClient quiet_config [''g'']) 0"
proof -
  have "sint (seconds (oc_IntervalSeconds (or_cfg (newWithClient quiet_config [''g''])))) = 300000000000"
    using seconds_small[of 300] by (simp add: newWithClient_def quiet_config_def)
  then show ?thesis by (simp add: interval_over_def since_def newWithClient_fields zero_time_def max_duration_def)
qed

theorem oracle_goroutines_both_ask_witness:
  "\<exists>s. (oracle_step (\<lambda>sig db. (None, Suc db)))\<^sup>*\<^sup>* (oracle_sys_init (newWithClient quiet_config [''g'']) 0 0) s \<and>
    asks_of 0 s = [0] \<and> asks_of 1 s = [0]"
  by (rule oracle_goroutines_both_ask[OF new_oracle_due])

text \<open>In its first round the Oracle divides the totals by the time since the year 1, which saturates: up to
  nine billion requests, whatever their pace, are reported as at most one per second.\<close>

lemma oracle_first_rate:
  assumes "0 \<le> now" "0 \<le> sint (ms_ReqTotal cur)" "sint (ms_ReqTotal cur) \<le> 9223372036"
  shows "\<exists>r. gs_ReqPerSec (hd (buildSnapshot [cur] (or_lastSnaps (newWithClient cfg gates))
      (round_interval (newWithClient cfg gates) now))) = Fin r \<and> 0 \<le> r \<and> r \<le> 1"
proof -
  have s: "since now (or_lastCall (newWithClient cfg gates)) = max_duration"
    using assms(1) by (simp add: since_def newWithClient_fields zero_time_def max_duration_def)
  obtain i where i: "round_interval (newWithClient cfg gates) now = Fin i" "9223372036 \<le> i"
    using first_interval by (auto simp: round_interval_def s)
  have t: "f64_of_int (sint (ms_ReqTotal cur)) = Fin (of_int (sint (ms_ReqTotal cur)))"
    using assms(2,3) by (intro f64_of_int_exact) simp
  define n where "n = sint (ms_ReqTotal cur)"
  define q where "q = of_int n / i"
  have "(of_int n :: rat) \<le> of_int 9223372036" using assms(3) unfolding n_def by (simp only: of_int_le_iff)
  then have q: "0 \<le> q" "q \<le> 1" using assms(2) i(2) by (auto simp: q_def n_def[symmetric] divide_le_eq)
  have "gs_ReqPerSec (hd (buildSnapshot [cur] [] (Fin i))) = fl q"
    using i(2) by (simp add: buildSnapshot_def build_one_def guard_interval_def prev_map_def delta_def t q_def n_def Let_def)
  moreover have "fl q = Fin (rnd q)" using q by (intro fl_Fin) simp
  moreover have "0 \<le> rnd q" "rnd q \<le> 1" using q rnd_mono[OF q(2)] by (simp_all add: rnd_nonneg)
  ultimately show ?thesis by (simp add: newWithClient_fields i(1))
qed

theorem oracle_first_rate_witness:
  "\<exists>r. gs_ReqPerSec (hd (buildSnapshot [total_of 1000000 0] (or_lastSnaps (newWithClient quiet_config [''g'']))
      (round_interval (newWithClient quiet_config [''g'']) 0))) = Fin r \<and> 0 \<le> r \<and> r \<le> 1"
  by (rule oracle_first_rate) (simp_all add: total_of_def)

text \<open>The same of the ticker alone, over the rounds of \<^const>\<open>analyze\<close>: Without thresholds the ticker never asks Claude twice within the configured interval, whatever
  the metrics say and whatever Claude answered.\<close>

theorem oracle_calls_spaced:
  assumes "quiet cfg" "clock_ok t ws" "zero_time \<le> t"
    "0 \<le> sint (seconds (oc_IntervalSeconds (or_cfg (newWithClient cfg gates))))"
  shows "spaced (sint (seconds (oc_IntervalSeconds (or_cfg (newWithClient cfg gates)))))
    (fst (rounds save ws (newWithClient cfg gates, db)))"
proof -
  let ?st = "(newWithClient cfg gates, db)"
  have q: "quiet (or_cfg (fst ?st))" using assms(1) by (simp add: quiet_def newWithClient_def Let_def)
  have l: "or_lastCall (fst ?st) \<le> t" using assms(3) by (simp add: newWithClient_fields)
  have tail: "spaced d (x # ts) \<Longrightarrow> spaced d ts" for d x ts by (cases ts) simp_all
  have i: "0 \<le> sint (seconds (oc_IntervalSeconds (or_cfg (fst ?st))))" using assms(4) by simp
  show ?thesis using tail[OF rounds_spaced_from[OF q assms(2) l i order_refl, of save]] by simp
qed

theorem oracle_calls_spaced_witness:
  "spaced (sint (seconds (oc_IntervalSeconds (or_cfg (newWithClient quiet_config [''g''])))))
    (fst (rounds (\<lambda>sig db. (None, Suc db)) [answer_at 0 ''ok'', answer_at 100 ''ok'', answer_at 300000000000 ''threat'']
      (newWithClient quiet_config [''g''], 0)))"
proof -
  have "oc_IntervalSeconds (or_cfg (newWithClient quiet_config [''g''])) = 300"
    by (simp add: newWithClient_def quiet_config_def)
  then have "0 \<le> sint (seconds (oc_IntervalSeconds (or_cfg (newWithClient quiet_config [''g'']))))"
    by (simp add: seconds_small)
  then show ?thesis
    by (intro oracle_calls_spaced[of _ 0]) (simp_all add: quiet_def quiet_config_def answer_at_def zero_time_def)
qed

text \<open>C33: A round that asks and gets an answer that is not \<open>ok\<close> leaves the answer as the first unresolved
  signal of the store, with its kind, gate and level, and starts a new interval from the gathered
  totals.\<close>

theorem oracle_signal_listed_first:
  assumes "sql_ok E rows" "st_wf (rows db)" "calls_claude ora w" "answer ora w (round_snaps ora w) = Inr resp"
    "rs_Kind resp \<noteq> ''ok''" "SaveSignal E now (to_signal resp) db = (None, db1)"
    "ListSignals E n db1 = Inr sigs" "0 < sint n"
  shows "analyze (SaveSignal E now) w (ora, db) =
      (ora\<lparr>or_lastCall := wd_record w, or_lastSnaps := round_snaps ora w\<rparr>, db1) \<and>
    (\<exists>t rest. sigs = t # rest \<and> ts_Summary t = rs_Summary resp \<and> ts_Kind t = rs_Kind resp \<and>
       ts_Gate t = rs_Gate resp \<and> ts_Level t = rs_Level resp)"
proof -
  have provides: "signal_store (SaveSignal E now) (ListSignals E) (ResolveSignal E)
      (\<lambda>db. st_active (rows db)) (\<lambda>db. st_wf (rows db))" by (rule store_provides[OF assms(1)])
  show ?thesis
    using analyze_called[OF assms(3,4), of "SaveSignal E now" db] assms(5,6)
      signal_store.saved_listed_first[OF provides assms(2,6,7,8)]
    by (simp add: to_signal_def)
qed

text \<open>A database with one table, empty, and an Oracle whose interval is over.\<close>

definition due_oracle :: oracle_state where
  "due_oracle = newWithClient quiet_config [''g'']"

lemma due_oracle_calls: "calls_claude due_oracle (answer_at 0 kind)"
proof -
  have "sint (seconds (oc_IntervalSeconds (or_cfg due_oracle))) = 300000000000"
    using seconds_small[of 300] by (simp add: due_oracle_def newWithClient_def quiet_config_def)
  then have "interval_over due_oracle 0"
    by (simp add: interval_over_def since_def due_oracle_def newWithClient_fields zero_time_def max_duration_def)
  then show ?thesis by (simp add: calls_claude_def shouldCall_def answer_at_def)
qed

definition threat_response :: oracle_response where
  "threat_response =
     \<lparr>rs_Kind = ''threat'', rs_Level = ''high'', rs_Gate = ''g'', rs_Summary = ''s'',
      rs_Reasoning = ''r'', rs_Action = ''a''\<rparr>"

theorem oracle_signal_listed_first_witness:
  "\<exists>t. ListSignals mem_engine 100 (snd (analyze (SaveSignal mem_engine 5) (answer_at 0 ''threat'') (due_oracle, []))) =
       Inr [t] \<and> ts_Kind t = ''threat'' \<and> ts_Level t = ''high''"
proof -
  let ?db1 = "snd (SaveSignal mem_engine 5 (to_signal threat_response) [])"
  have save: "SaveSignal mem_engine 5 (to_signal threat_response) [] = (None, ?db1)"
    by (simp add: SaveSignal_def mem_engine_def mem_next_def)
  have wf: "st_wf []" by (simp add: st_wf_def)
  have resp: "answer due_oracle (answer_at 0 ''threat'') (round_snaps due_oracle (answer_at 0 ''threat'')) = Inr threat_response"
    by (simp add: answer_def callClaude_def buildPrompt_def answer_at_def threat_response_def)
  have "case ListSignals mem_engine 100 ?db1 of Inl e \<Rightarrow> False | Inr ts \<Rightarrow> length ts = 1" by code_simp
  then obtain t where l: "ListSignals mem_engine 100 ?db1 = Inr [t]"
    by (auto split: sum.splits simp: length_Suc_conv)
  have kind: "rs_Kind threat_response \<noteq> ''ok''" by (simp add: threat_response_def)
  from oracle_signal_listed_first[OF mem_engine_ok wf due_oracle_calls resp kind save l] l show ?thesis
    by (simp add: threat_response_def)
qed

section \<open>The signals interface\<close>

text \<open>C34: Resolving a signal over HTTP answers 204, and after it no listing contains the signal, while every
  other unresolved signal is still there in the same order (up to the hundred newest); and the bytes of the
  answer determine the signals: no other listing of signals in ASCII is written the same way.\<close>

theorem resolved_signal_disappears:
  assumes "sql_ok E rows" "st_wf (rows db)" "rq_method r = ''POST''" "rq_path r = resolve_path i"
    "- (2 ^ 63) \<le> i" "i < 2 ^ 63" "ResolveSignal E (word_of_int i) db = (None, db1)"
    "rq_method q = ''GET''" "rq_path q = ''/oracle/signals''" "ListSignals E 100 db1 = Inr sigs"
  shows "SignalsHandler (ListSignals E) (ResolveSignal E) r db = ([W_WriteHeader 204], Returned, db1) \<and>
    SignalsHandler (ListSignals E) (ResolveSignal E) q db1 =
      ([W_Header ''Content-Type'' ''application/json'', W_Write (encode_signals sigs)], Returned, db1) \<and>
    sigs = take 100 (filter (\<lambda>t. ts_ID t \<noteq> word_of_int i) (st_active (rows db))) \<and>
    (\<forall>other. list_all ascii_signal sigs \<and> list_all ascii_signal other \<and> encode_signals other = encode_signals sigs
       \<longrightarrow> other = sigs)"
proof -
  have provides: "signal_store (SaveSignal E now) (ListSignals E) (ResolveSignal E)
      (\<lambda>db. st_active (rows db)) (\<lambda>db. st_wf (rows db))" for now
    by (rule store_provides[OF assms(1)])
  have "st_wf (rows db1)"
    using signal_store.resolve_wf[OF provides assms(2), of "word_of_int i"] assms(7) by simp
  from signal_store.listing_ok[OF provides this assms(10)] signal_store.resolve_ok[OF provides assms(2,7)]
  have "sigs = take 100 (filter (\<lambda>t. ts_ID t \<noteq> word_of_int i) (st_active (rows db)))"
    by (simp add: sql_limit_def)
  with SignalsHandler_resolve[of r i "ResolveSignal E" db db1, OF assms(3-7)]
    SignalsHandler_list[of q "ListSignals E" db1 sigs, OF assms(8-10)] encode_signals_inj show ?thesis by blast
qed

definition two_signals :: "sig_row list" where
  "two_signals =
     snd (SaveSignal mem_engine 2 (to_signal threat_response)
       (snd (SaveSignal mem_engine 1 (to_signal threat_response) [])))"

definition signal_request :: "string \<Rightarrow> string \<Rightarrow> request" where
  "signal_request meth path =
     \<lparr>rq_method = meth, rq_scheme = '''', rq_url_host = '''', rq_path = path, rq_host = ''h'',
      rq_header = (\<lambda>_. []), rq_remote = ''10.0.0.7:4711''\<rparr>"

theorem resolved_signal_disappears_witness:
  "\<exists>t. ts_ID t = 2 \<and> SignalsHandler (ListSignals mem_engine) (ResolveSignal mem_engine)
      (signal_request ''GET'' ''/oracle/signals'')
      (snd (snd (SignalsHandler (ListSignals mem_engine) (ResolveSignal mem_engine)
        (signal_request ''POST'' (resolve_path 1)) two_signals))) =
    ([W_Header ''Content-Type'' ''application/json'', W_Write (encode_signals [t])], Returned, map (mark 1) two_signals)"
proof -
  have wf: "st_wf two_signals" by code_simp
  have res: "ResolveSignal mem_engine (word_of_int 1) two_signals = (None, map (mark 1) two_signals)"
    by (simp add: ResolveSignal_def mem_engine_def)
  obtain sigs where l: "ListSignals mem_engine 100 (map (mark 1) two_signals) = Inr sigs"
    by (simp add: ListSignals_def mem_engine_def)
  have "map ts_ID (take 100 (filter (\<lambda>t. ts_ID t \<noteq> word_of_int 1) (st_active two_signals))) = [2]"
    by code_simp
  then obtain t where "take 100 (filter (\<lambda>t. ts_ID t \<noteq> word_of_int 1) (st_active two_signals)) = [t]" "ts_ID t = 2"
    by (auto simp: map_eq_Cons_conv)
  with resolved_signal_disappears[OF mem_engine_ok wf _ _ _ _ res _ _ l,
      of "signal_request ''POST'' (resolve_path 1)" "signal_request ''GET'' ''/oracle/signals''"]
  show ?thesis by (intro exI[of _ t]) (simp add: signal_request_def)
qed

end
