(* ===== verification/Record_Props.thy ===== *)
theory Record_Props
  imports Store_Tables Startup Life_Props Observe_Props
begin

text \<open>
  The properties of what the program leaves in its database: the rows of a flush tick, that they count
  the requests the gate served, and that the stored events tell the health of the backends.
\<close>

section \<open>The statistics\<close>


text \<open>A database whose second insert fails: the other rows are there.\<close>

fun flaky_exec :: "sql \<Rightarrow> mem_db \<Rightarrow> string option \<times> mem_db" where
  "flaky_exec (Insert_stats now g a b p) db =
     (if g = ''b'' then (Some ''busy'', db) else tab_exec (Insert_stats now g a b p) db)"
| "flaky_exec st db = tab_exec st db"

definition flaky_engine :: "mem_db engine" where
  "flaky_engine = \<lparr>sq_exec = flaky_exec, sq_select = sq_select tab_engine\<rparr>"

lemma flaky_engine_ok: "tables_ok flaky_engine md_stats md_events"
proof -
  have "md_stats db' = md_stats db \<and> md_events db' = md_events db" if "flaky_exec st db = (Some e, db')" for st db e db'
    using that by (cases st) (auto simp: Let_def split: prod.splits if_splits)
  then show ?thesis by (auto simp: tables_ok_def flaky_engine_def Let_def split: if_splits)
qed





section \<open>The events\<close>

definition stored :: "string \<Rightarrow> event_row list \<Rightarrow> scan_event list" where
  "stored g rows = map (\<lambda>r. (er_gate r, er_kind r, er_detail r)) (filter (\<lambda>r. er_gate r = g) rows)"


text \<open>Three rounds over two backends, a reload and another gate's event between them.\<close>

definition mixed_events :: "(int64 \<times> scan_event) list" where
  "mixed_events =
     [(1, ''g'', ''backend_down'', ''a:1''), (1, ''h'', ''backend_down'', ''b:1''),
      (2, ''*'', ''config_reload'', ''centauri.yml''), (2, ''g'', ''backend_down'', ''b:1''), (3, ''g'', ''backend_up'', ''b:1'')]"


end
