(* ===== verification/Balancing_Props.thy ===== *)
theory Balancing_Props
  imports Weighted_Fair Round_Robin Balancers
begin

text \<open>
  The properties of the load balancers, each with its witness: the shares of the weighted and
  the plain rotation, the choice of the least-connections balancer, and what holds of whichever
  balancer the factory returns.
\<close>

section \<open>Smooth weighted round-robin\<close>

text \<open>C5: Over one period of as many calls as the sum of the weights, a freshly built weighted
  balancer picks every backend exactly as often as its weight says, and is then back in its
  initial state, so the same holds of every later period.\<close>

theorem weighted_exact_share:
  assumes "as \<noteq> []" "distinct as" "fits (init_weight ws) as" "i < length as"
  shows "int (count_list (fst (run_n w_Next (nat (sint (w_total (w_New as ws)))) (w_New as ws))) (as ! i)) =
      sint (init_weight ws i (as ! i)) \<and>
    snd (run_n w_Next (nat (sint (w_total (w_New as ws)))) (w_New as ws)) = w_New as ws"
proof -
  have safe: "w_safe (w_New as ws)" by (rule w_New_safe[OF assms(1,3)])
  have "distinct (w_addrs (w_New as ws))" "i < length (w_backends (w_New as ws))"
    using assms(2,4) by simp_all
  from w_cycle[OF safe w_New_fresh this] show ?thesis
    using assms(4) by (simp add: w_New_nth)
qed

theorem weighted_exact_share_witness:
  "int (count_list (fst (run_n w_Next (nat (sint (w_total (w_New [''a'', ''b'', ''c''] [5, 1, 1]))))
      (w_New [''a'', ''b'', ''c''] [5, 1, 1]))) ''a'') = 5"
proof -
  have "fits (init_weight [5, 1, 1]) [''a'', ''b'', ''c'']" by code_simp
  moreover have "sint (init_weight [5, 1, 1] 0 ''a'') = 5" by code_simp
  ultimately show ?thesis
    using weighted_exact_share[of "[''a'', ''b'', ''c'']" "[5, 1, 1]" 0] by simp
qed

text \<open>C6: The 64-bit code computes smooth weighted round-robin over unbounded integers: from a
  state whose credits fit, any number of calls returns the addresses the specification picks,
  leaves its credits, and never overflows.\<close>

theorem weighted_refines_spec:
  assumes "w_safe w"
  shows "fst (run_n w_Next m w) = map ((!) (w_addrs w)) (fst (run_n (swrr_step (abs_ws w)) m (abs_cur w))) \<and>
    abs_cur (snd (run_n w_Next m w)) = snd (run_n (swrr_step (abs_ws w)) m (abs_cur w)) \<and>
    w_safe (snd (run_n w_Next m w))"
  using w_run_refines[OF assms] by blast

theorem weighted_refines_spec_witness:
  "fst (run_n w_Next 3 (w_New [''a'', ''b''] [2, 1])) = [''a'', ''b'', ''a'']"
proof -
  have "fits (init_weight [2, 1]) [''a'', ''b'']" by code_simp
  then have "w_safe (w_New [''a'', ''b''] [2, 1])" by (intro w_New_safe) simp_all
  from weighted_refines_spec[OF this, of 3]
  have "fst (run_n w_Next 3 (w_New [''a'', ''b''] [2, 1])) =
      map ((!) (w_addrs (w_New [''a'', ''b''] [2, 1])))
        (fst (run_n (swrr_step (abs_ws (w_New [''a'', ''b''] [2, 1]))) 3 (abs_cur (w_New [''a'', ''b''] [2, 1]))))"
    by blast
  also have "\<dots> = [''a'', ''b'', ''a'']" by code_simp
  finally show ?thesis .
qed

text \<open>C7: At every moment inside a period too, no backend is ahead of its share by a whole pick
  or more: after \<open>m\<close> calls, picks times total weight is less than \<open>m\<close> times its weight plus
  the total weight.\<close>

theorem weighted_never_ahead:
  assumes "as \<noteq> []" "distinct as" "fits (init_weight ws) as" "i < length as"
  shows "int (count_list (fst (run_n w_Next m (w_New as ws))) (as ! i)) * sint (w_total (w_New as ws))
    < int m * sint (init_weight ws i (as ! i)) + sint (w_total (w_New as ws))"
proof -
  have safe: "w_safe (w_New as ws)" by (rule w_New_safe[OF assms(1,3)])
  have "distinct (w_addrs (w_New as ws))" "i < length (w_backends (w_New as ws))"
    using assms(2,4) by simp_all
  from w_never_ahead[OF safe w_New_fresh this] show ?thesis
    using assms(4) by (simp add: w_New_nth)
qed

theorem weighted_never_ahead_witness:
  "int (count_list (fst (run_n w_Next 4 (w_New [''a'', ''b''] [3, 1]))) ''b'')
      * sint (w_total (w_New [''a'', ''b''] [3, 1]))
    < 4 * sint (init_weight [3, 1] 1 ''b'') + sint (w_total (w_New [''a'', ''b''] [3, 1]))"
proof -
  have "fits (init_weight [3, 1]) [''a'', ''b'']" by code_simp
  then show ?thesis using weighted_never_ahead[of "[''a'', ''b'']" "[3, 1]" 1 4] by simp
qed

text \<open>C8: A pushed list keeps the weight of every address that was listed and gives weight 1 to
  the others; the credits start again at zero and the new list is safe, so the exact shares hold
  of it as well.\<close>

theorem weighted_push_keeps_weights:
  assumes "w_safe w" "distinct (w_addrs w)" "as \<noteq> []" "distinct as"
    "fits (kept_weight (existing_weights (w_backends w))) as" "i < length as"
  shows "wb_weight (w_backends (w_SetBackends w as) ! i) =
      (case find (\<lambda>b. wb_addr b = as ! i) (w_backends w) of Some b \<Rightarrow> wb_weight b | None \<Rightarrow> 1) \<and>
    int (count_list (fst (run_n w_Next (nat (sint (w_total (w_SetBackends w as)))) (w_SetBackends w as))) (as ! i)) =
      sint (wb_weight (w_backends (w_SetBackends w as) ! i))"
proof -
  have pos: "\<forall>b \<in> set (w_backends w). 0 < sint (wb_weight b)"
    using assms(1) by (simp add: w_safe_def swrr_inv_def abs_ws_def)
  have addrs: "w_addrs (w_SetBackends w as) = as" by simp
  have len: "length (w_backends (w_SetBackends w as)) = length as"
    using arg_cong[OF addrs, of length] by (simp add: w_addrs_def)
  have "wb_weight (w_backends (w_SetBackends w as) ! i) =
      (case find (\<lambda>b. wb_addr b = as ! i) (w_backends w) of Some b \<Rightarrow> wb_weight b | None \<Rightarrow> 1)"
  proof (cases "find (\<lambda>b. wb_addr b = as ! i) (w_backends w)")
    case None
    then have "as ! i \<notin> set (w_addrs w)" by (auto simp: find_None_iff w_addrs_def)
    from existing_weights_None[OF this] None assms(6) show ?thesis
      by (simp add: w_SetBackends_nth kept_weight_def)
  next
    case (Some b)
    then have "b \<in> set (w_backends w)" "wb_addr b = as ! i" by (auto simp: find_Some_iff)
    with existing_weights_Some[OF assms(2) this(1)] Some assms(6) show ?thesis
      by (simp add: w_SetBackends_nth kept_weight_def)
  qed
  moreover have "int (count_list (fst (run_n w_Next (nat (sint (w_total (w_SetBackends w as)))) (w_SetBackends w as))) (as ! i)) =
      sint (wb_weight (w_backends (w_SetBackends w as) ! i))"
    using w_cycle(1)[OF w_SetBackends_safe[OF pos assms(3,5)], of i] assms(4,6) addrs len by simp
  ultimately show ?thesis ..
qed

theorem weighted_push_keeps_weights_witness:
  "wb_weight (w_backends (w_SetBackends (w_New [''a'', ''b''] [3, 2]) [''b'', ''c'']) ! 0) = 2"
proof -
  have "fits (init_weight [3, 2]) [''a'', ''b'']" by code_simp
  then have safe: "w_safe (w_New [''a'', ''b''] [3, 2])" by (intro w_New_safe) simp_all
  have "fits (kept_weight (existing_weights (w_backends (w_New [''a'', ''b''] [3, 2])))) [''b'', ''c'']"
    by code_simp
  from weighted_push_keeps_weights[OF safe _ _ _ this, of 0]
  have "wb_weight (w_backends (w_SetBackends (w_New [''a'', ''b''] [3, 2]) [''b'', ''c'']) ! 0) =
    (case find (\<lambda>b. wb_addr b = ''b'') (w_backends (w_New [''a'', ''b''] [3, 2])) of Some b \<Rightarrow> wb_weight b | None \<Rightarrow> 1)"
    by simp
  also have "\<dots> = 2" by code_simp
  finally show ?thesis .
qed

text \<open>A backend that drops out of the pushed list and comes back has weight 1, whatever weight
  it was configured with: a health flap changes the shares.\<close>

lemma weighted_flap_loses_weight:
  assumes "a \<notin> set live" "i < length as" "as ! i = a"
  shows "wb_weight (w_backends (w_SetBackends (w_SetBackends w live) as) ! i) = 1"
  using w_flap_weight[OF assms] .

theorem weighted_flap_loses_weight_witness:
  "wb_weight (w_backends (w_SetBackends (w_SetBackends (w_New [''a'', ''b''] [5, 1]) [''b'']) [''a'', ''b'']) ! 0) = 1"
  using weighted_flap_loses_weight[of "''a''" "[''b'']" 0 "[''a'', ''b'']" "w_New [''a'', ''b''] [5, 1]"] by simp

section \<open>Round-robin\<close>

text \<open>C9: Any number of full turns of the plain rotation picks every address exactly that many
  times (times its multiplicity in the list), from any counter value that does not wrap.\<close>

theorem round_robin_even:
  assumes "rr_backends r \<noteq> []" "unat (rr_counter r) + q * length (rr_backends r) < 2 ^ 64"
  shows "count_list (fst (run_n rr_Next (q * length (rr_backends r)) r)) a = q * count_list (rr_backends r) a"
  using rr_cycles_count[OF assms] .

theorem round_robin_even_witness:
  "count_list (fst (run_n rr_Next (2 * length (rr_backends (rr_New [''a'', ''b'', ''c'']))) (rr_New [''a'', ''b'', ''c'']))) ''b'' =
    2 * count_list (rr_backends (rr_New [''a'', ''b'', ''c''])) ''b''"
  using round_robin_even[of "rr_New [''a'', ''b'', ''c'']" 2 "''b''"] by (simp add: rr_New_def)

section \<open>Least connections\<close>

text \<open>C10: The least-connections balancer hands out a listed address whose open-connection counter
  is the smallest, the first such address in the list, and changes nothing.\<close>

theorem least_conn_choice:
  assumes "lc_backends lc \<noteq> []"
  shows "\<exists>k. k < length (lc_backends lc) \<and> fst (lc_Next lc) = lc_backends lc ! k \<and>
    (\<forall>j < length (lc_backends lc). sint (lc_count lc (lc_backends lc ! k)) \<le> sint (lc_count lc (lc_backends lc ! j))) \<and>
    (\<forall>j < k. sint (lc_count lc (lc_backends lc ! k)) < sint (lc_count lc (lc_backends lc ! j))) \<and>
    snd (lc_Next lc) = lc"
  using lc_Next_first_min[OF assms] by (auto simp: first_best_def lc_Next_frame)

theorem least_conn_choice_witness:
  "lc_Next (lc_Acquire (lc_New [''a'', ''b'']) ''a'') = (''b'', lc_Acquire (lc_New [''a'', ''b'']) ''a'')"
proof -
  let ?lc = "lc_Acquire (lc_New [''a'', ''b'']) ''a''"
  have bs: "lc_backends ?lc = [''a'', ''b'']" by code_simp
  have bs0: "lc_backends (lc_New [''a'', ''b'']) = [''a'', ''b'']" by code_simp
  obtain k where k: "k < length (lc_backends ?lc)" "fst (lc_Next ?lc) = lc_backends ?lc ! k"
    "\<forall>j < length (lc_backends ?lc). sint (lc_count ?lc (lc_backends ?lc ! k)) \<le> sint (lc_count ?lc (lc_backends ?lc ! j))"
    "snd (lc_Next ?lc) = ?lc"
    using least_conn_choice[of ?lc] bs by auto
  have "sint (lc_count ?lc (lc_backends ?lc ! k)) \<le> sint (lc_count ?lc (lc_backends ?lc ! 1))"
    using k(3) bs by (auto dest: spec[of _ 1])
  moreover have "lc_count ?lc ''a'' = 1" "lc_count ?lc ''b'' = 0" by code_simp+
  ultimately have "k \<noteq> 0" by (intro notI) (simp add: bs0)
  then have "k = 1" using k(1) by (simp add: bs0)
  then have "fst (lc_Next ?lc) = ''b''" using k(2) by (simp add: bs0)
  then show ?thesis using k(4) by (simp add: prod_eq_iff)
qed

text \<open>Whatever connections are opened and closed and whatever lists the health checker pushes,
  as long as an address stays listed the least-connections counter of it is the number of its open
  connections.\<close>

lemma open_connections_counted:
  assumes "a \<in> set as" "stays_listed a es"
  shows "lb_count (run_conns lb_Acquire lb_Release lb_SetBackends
      (NewFromConfig as ws ''least_connections'') es) a = word_of_int (net_open a es)"
proof -
  have "lb_counting (NewFromConfig as ws ''least_connections'')"
    "lb_tracks (NewFromConfig as ws ''least_connections'') a"
    "lb_count (NewFromConfig as ws ''least_connections'') a = 0"
    using assms(1) by (simp_all add: NewFromConfig_def)
  with lbc.run_conns_count[OF this(1,2) assms(2)] show ?thesis by simp
qed

theorem open_connections_counted_witness:
  "lb_count (run_conns lb_Acquire lb_Release lb_SetBackends (NewFromConfig [''a'', ''b''] [] ''least_connections'')
      [Opened ''a'', Opened ''b'', Opened ''a'', Pushed [''a''], Closed ''a'']) ''a'' = 1"
  using open_connections_counted[of "''a''" "[''a'', ''b'']" "[Opened ''a'', Opened ''b'', Opened ''a'', Pushed [''a''], Closed ''a'']" "[]"]
  by simp

text \<open>A list that drops an address forgets its open connections: when it is listed again and one
  of the old connections closes, the counter becomes -1, below that of an idle backend.\<close>

lemma relisted_counter_negative:
  assumes "a \<notin> set live" "a \<in> set as"
  shows "lb_count (lb_Release (lb_SetBackends (lb_SetBackends (LB_LeastConn lc) live) as) a) a = -1"
  by (rule lbc.relisted_release_negative[OF _ assms]) simp

theorem relisted_counter_negative_witness:
  "lb_count (lb_Release (lb_SetBackends (lb_SetBackends
      (LB_LeastConn (lc_Acquire (lc_New [''a'', ''b'']) ''a'')) [''b'']) [''a'', ''b'']) ''a'') ''a'' = -1"
  using relisted_counter_negative[of "''a''" "[''b'']" "[''a'', ''b'']"] by simp

section \<open>Whichever balancer is configured\<close>

text \<open>After a list is pushed into the balancer the factory made for any algorithm, the next
  calls hand out addresses of that list only, and the empty address only when the list is empty.\<close>

lemma pushed_list_is_served:
  assumes "'''' \<notin> set live"
  shows "set (fst (run_n lb_Next n (lb_SetBackends (NewFromConfig as ws algorithm) live))) \<subseteq>
      (if live = [] then {''''} else set live) \<and>
    lb_Len (lb_SetBackends (NewFromConfig as ws algorithm) live) = int (length live)"
proof (cases "live = []")
  case True
  then have "lb_addrs (lb_SetBackends (NewFromConfig as ws algorithm) live) = []" by simp
  from lbb.run_dead[OF this, of n] True show ?thesis by (auto simp: lbb.len_addrs)
next
  case False
  from lbb.run_after_set[OF False, of n "NewFromConfig as ws algorithm"] False show ?thesis
    by (simp add: lbb.len_addrs)
qed

theorem pushed_list_is_served_witness:
  "set (fst (run_n lb_Next 5 (lb_SetBackends (NewFromConfig [''a'', ''b'', ''c''] [] ''weighted'') [''c'', ''a'']))) \<subseteq> {''c'', ''a''}"
  using pushed_list_is_served[of "[''c'', ''a'']" 5 "[''a'', ''b'', ''c'']" "[]" "''weighted''"] by simp

end
