(* ===== verification/Tunnel.thy ===== *)
theory Tunnel
  imports Tasks
begin

text \<open>
  \<^verbatim>\<open>internal/tunnel/tunnel.go\<close>: the TCP tunnel. \<open>Listen\<close> starts one goroutine per
  accepted connection; \<open>handle_step\<close> is one operation of \<open>handle\<close> on a shared object (the
  balancer, a socket), so that other connections and the health checker may act between any two of
  them, in particular between \<open>Next\<close> and \<open>Acquire\<close>. \<open>tun_step\<close> interleaves everything, and the
  counters follow from the interface \<open>counted_tasks\<close>.
\<close>

section \<open>One connection\<close>

datatype sock = Sk_Open | Sk_WriteClosed | Sk_Closed

text \<open>
  Where a goroutine stands: before \<open>Next\<close>, before \<open>Acquire\<close>, before the dial, in the two
  copies (which of them have ended), before the deferred \<open>Release\<close>, returned.
\<close>

datatype conn_pc =
    TC_Next
  | TC_Acquire addr
  | TC_Dial addr
  | TC_Copy addr bool bool
  | TC_Release addr
  | TC_Done

record tun_conn =
  tc_pc :: conn_pc
  tc_client :: sock
  tc_backend :: "sock option"

definition accepted :: tun_conn where
  "accepted = \<lparr>tc_pc = TC_Next, tc_client = Sk_Open, tc_backend = None\<rparr>"

text \<open>
  \<open>dial_ok\<close> is the outcome of the dial, \<open>to_backend\<close> which of the copies ends in this step. The
  deferred calls run in the order backend, counter, client.
\<close>

definition handle_step :: "bool \<Rightarrow> bool \<Rightarrow> tun_conn \<Rightarrow> lb \<Rightarrow> tun_conn \<times> lb" where
  "handle_step dial_ok to_backend c b =
     (case tc_pc c of
        TC_Next \<Rightarrow>
          let (a, b1) = lb_Next b
          in if a = '''' then (c\<lparr>tc_pc := TC_Done, tc_client := Sk_Closed\<rparr>, b1)
             else (c\<lparr>tc_pc := TC_Acquire a\<rparr>, b1)
      | TC_Acquire a \<Rightarrow> (c\<lparr>tc_pc := TC_Dial a\<rparr>, lb_Acquire b a)
      | TC_Dial a \<Rightarrow>
          if dial_ok then (c\<lparr>tc_pc := TC_Copy a False False, tc_backend := Some Sk_Open\<rparr>, b)
          else (c\<lparr>tc_pc := TC_Release a\<rparr>, b)
      | TC_Copy a up down \<Rightarrow>
          if up \<and> down then (c\<lparr>tc_pc := TC_Release a, tc_backend := Some Sk_Closed\<rparr>, b)
          else if to_backend \<and> \<not> up
          then (c\<lparr>tc_pc := TC_Copy a True down, tc_backend := Some Sk_WriteClosed\<rparr>, b)
          else if \<not> to_backend \<and> \<not> down
          then (c\<lparr>tc_pc := TC_Copy a up True, tc_client := Sk_WriteClosed\<rparr>, b)
          else (c, b)
      | TC_Release a \<Rightarrow> (c\<lparr>tc_pc := TC_Done, tc_client := Sk_Closed\<rparr>, lb_Release b a)
      | TC_Done \<Rightarrow> (c, b))"

text \<open>The address a goroutine has counted and not yet released.\<close>

fun counted :: "conn_pc \<Rightarrow> addr option" where
  "counted (TC_Dial a) = Some a"
| "counted (TC_Copy a up down) = Some a"
| "counted (TC_Release a) = Some a"
| "counted pc = None"

lemma handle_step_count:
  "lb_count (snd (handle_step ok up c b)) a =
    lb_count b a + (if lb_tracks b a then held (counted (tc_pc (fst (handle_step ok up c b)))) a - held (counted (tc_pc c)) a else 0)"
  by (cases "tc_pc c")
    (auto simp: held_def handle_step_def lb_conn_count lb_Next_to Let_def split: prod.splits)

lemma handle_step_lb:
  "lb_counting (snd (handle_step ok up c b)) = lb_counting b"
  "lb_tracks (snd (handle_step ok up c b)) a = lb_tracks b a"
  "lb_addrs (snd (handle_step ok up c b)) = lb_addrs b"
  by (cases "tc_pc c";
      auto simp: handle_step_def lb_Next_to lb_conn_counting lb_conn_tracks lb_conn_addrs split: prod.splits)+

section \<open>What a connection still holds\<close>

definition conn_ok :: "tun_conn \<Rightarrow> bool" where
  "conn_ok c \<longleftrightarrow>
     (case tc_pc c of
        TC_Next \<Rightarrow> tc_client c = Sk_Open \<and> tc_backend c = None
      | TC_Acquire a \<Rightarrow> tc_client c = Sk_Open \<and> tc_backend c = None
      | TC_Dial a \<Rightarrow> tc_client c = Sk_Open \<and> tc_backend c = None
      | TC_Copy a up down \<Rightarrow>
          tc_client c = (if down then Sk_WriteClosed else Sk_Open) \<and>
          tc_backend c = Some (if up then Sk_WriteClosed else Sk_Open)
      | TC_Release a \<Rightarrow> tc_client c \<noteq> Sk_Closed \<and> tc_backend c \<in> {None, Some Sk_Closed}
      | TC_Done \<Rightarrow> tc_client c = Sk_Closed \<and> tc_backend c \<in> {None, Some Sk_Closed})"

lemma conn_ok_step: "conn_ok c \<Longrightarrow> conn_ok (fst (handle_step ok up c b))"
  by (cases "tc_pc c") (auto simp: conn_ok_def handle_step_def Let_def split: prod.splits if_splits)

text \<open>How many steps are left, at most, once both copies end when asked to.\<close>

fun conn_left :: "conn_pc \<Rightarrow> nat" where
  "conn_left TC_Next = 7"
| "conn_left (TC_Acquire a) = 6"
| "conn_left (TC_Dial a) = 5"
| "conn_left (TC_Copy a up down) = 2 + (if up then 0 else 1) + (if down then 0 else 1)"
| "conn_left (TC_Release a) = 1"
| "conn_left TC_Done = 0"

text \<open>The copy that is still to end, whichever it is.\<close>

fun pending_copy :: "conn_pc \<Rightarrow> bool" where
  "pending_copy (TC_Copy a up down) = (\<not> up)"
| "pending_copy pc = False"

lemma handle_step_progress:
  "tc_pc c \<noteq> TC_Done \<Longrightarrow>
   conn_left (tc_pc (fst (handle_step ok (pending_copy (tc_pc c)) c b))) < conn_left (tc_pc c)"
  by (cases "tc_pc c") (auto simp: handle_step_def Let_def split: prod.splits)

text \<open>A call on its own, the client ending its side first.\<close>

fun run_handle :: "nat \<Rightarrow> bool \<Rightarrow> tun_conn \<times> lb \<Rightarrow> tun_conn \<times> lb" where
  "run_handle 0 ok st = st"
| "run_handle (Suc n) ok st =
     run_handle n ok (handle_step ok (pending_copy (tc_pc (fst st))) (fst st) (snd st))"

lemma run_handle_done:
  "conn_left (tc_pc c) \<le> n \<Longrightarrow> tc_pc (fst (run_handle n ok (c, b))) = TC_Done"
proof (induction n arbitrary: c b)
  case 0
  then show ?case by (cases "tc_pc c") auto
next
  case (Suc n)
  let ?s = "handle_step ok (pending_copy (tc_pc c)) c b"
  have "conn_left (tc_pc (fst ?s)) \<le> n"
  proof (cases "tc_pc c = TC_Done")
    case True
    then show ?thesis by (simp add: handle_step_def)
  next
    case False
    from handle_step_progress[OF this, of ok b] Suc.prems show ?thesis by simp
  qed
  from Suc.IH[OF this, of "snd ?s"] show ?case by simp
qed

lemma run_handle_ok: "conn_ok c \<Longrightarrow> conn_ok (fst (run_handle n ok (c, b)))"
proof (induction n arbitrary: c b)
  case (Suc n)
  let ?s = "handle_step ok (pending_copy (tc_pc c)) c b"
  from Suc.IH[OF conn_ok_step[OF Suc.prems], of ok "pending_copy (tc_pc c)" b "snd ?s"] show ?case by simp
qed simp

lemma run_handle_count:
  "lb_count (snd (run_handle n ok (c, b))) a =
     lb_count b a + (if lb_tracks b a then held (counted (tc_pc (fst (run_handle n ok (c, b))))) a - held (counted (tc_pc c)) a else 0)"
proof (induction n arbitrary: c b)
  case (Suc n)
  let ?s = "handle_step ok (pending_copy (tc_pc c)) c b"
  show ?case
    using Suc.IH[of "fst ?s" "snd ?s"] handle_step_count[of ok "pending_copy (tc_pc c)" c b a]
    by (simp add: handle_step_lb)
qed simp

section \<open>Many connections\<close>

text \<open>\<open>Listen\<close>: the input of a step is the result of the dial and which copy ends.\<close>

type_synonym tun_sys = "tun_conn task_sys"

definition tun_step :: "(addr list \<Rightarrow> bool) \<Rightarrow> tun_sys \<Rightarrow> tun_sys \<Rightarrow> bool" where
  "tun_step = task_step (\<lambda>(dial_ok, to_backend). handle_step dial_ok to_backend) accepted (\<lambda>x. True)"

interpretation tun: counted_tasks "\<lambda>(dial_ok, to_backend). handle_step dial_ok to_backend" accepted "\<lambda>x. True"
    "\<lambda>c. counted (tc_pc c)" conn_ok
  by unfold_locales
    (auto simp: handle_step_count handle_step_lb conn_ok_step, simp_all add: accepted_def conn_ok_def)

lemma tun_step_run:
  "tk_tasks s i = Some c \<Longrightarrow> handle_step ok up c (tk_lb s) = (c', b) \<Longrightarrow>
   tun_step allowed s (s\<lparr>tk_lb := b, tk_tasks := (tk_tasks s)(i \<mapsto> c')\<rparr>)"
  unfolding tun_step_def by (rule task_step.run[of s i c _ "(ok, up)"]) simp_all

text \<open>The connections in flight to an address.\<close>

definition in_flight :: "tun_sys \<Rightarrow> addr \<Rightarrow> nat set" where
  "in_flight s a = holders (\<lambda>c. counted (tc_pc c)) s a"

end
