(* ===== verification/Udp_Tunnel.thy ===== *)
theory Udp_Tunnel
  imports Balancers
begin

text \<open>
  \<^verbatim>\<open>internal/tunnel/udp.go\<close>: the UDP tunnel. One goroutine per datagram runs \<open>forward\<close>, one
  per session runs \<open>pump\<close>, one runs \<open>evict\<close>; they share the session table (a \<open>sync.Map\<close>), the
  sockets and the balancer. Every operation on shared state is one atomic step here, so that
  \<open>udp_step\<close> has all the interleavings: a goroutine is a program counter, and what the network
  answers (does the dial work, does a read or a write fail) is an argument of the step.
  Times are nanoseconds; sockets are numbered in the order they are dialled.
\<close>

section \<open>State\<close>

record udp_session =
  us_backend :: addr
  us_last :: int
  us_closed :: bool

text \<open>Where a \<open>forward\<close> goroutine stands: the operation it executes next.\<close>

datatype fwd_pc =
    At_Load | At_Next | At_Dial addr | At_Store nat | At_Lost nat nat | At_Start nat
  | At_Touch nat | At_Write nat

record fwd =
  f_key :: addr
  f_data :: string
  f_pc :: fwd_pc

datatype evict_pc = Ev_Idle | Ev_Range int | Ev_Visit int addr nat | Ev_Delete int addr nat

record udp_sys =
  ut_lb :: lb
  ut_sess :: "addr \<rightharpoonup> nat"
  ut_conn :: "nat \<rightharpoonup> udp_session"
  ut_fresh :: nat
  ut_fwd :: "nat \<rightharpoonup> fwd"
  ut_pump :: "nat \<rightharpoonup> addr"
  ut_evict :: evict_pc
  ut_now :: int
  ut_sent :: "(nat \<times> string) list"
  ut_replies :: "(nat \<times> addr) list"
  ut_dialled :: "nat \<rightharpoonup> addr"
  ut_started :: "nat list"

text \<open>
  The last two fields are history, read by no step: for which client a socket was dialled and
  which pumps were started.
\<close>

definition NewUDP :: "lb \<Rightarrow> udp_sys" where
  "NewUDP b =
     \<lparr>ut_lb = b, ut_sess = Map.empty, ut_conn = Map.empty, ut_fresh = 0, ut_fwd = Map.empty,
      ut_pump = Map.empty, ut_evict = Ev_Idle, ut_now = 0, ut_sent = [], ut_replies = [],
      ut_dialled = Map.empty, ut_started = []\<rparr>"

section \<open>The goroutines\<close>

definition dial :: "addr \<Rightarrow> addr \<Rightarrow> udp_sys \<Rightarrow> udp_sys" where
  "dial k a u =
     u\<lparr>ut_conn := (ut_conn u)(ut_fresh u \<mapsto> \<lparr>us_backend = a, us_last = ut_now u, us_closed = False\<rparr>),
       ut_fresh := Suc (ut_fresh u), ut_dialled := (ut_dialled u)(ut_fresh u \<mapsto> k)\<rparr>"

definition close_conn :: "nat \<Rightarrow> udp_sys \<Rightarrow> udp_sys" where
  "close_conn s u =
     u\<lparr>ut_conn := (case ut_conn u s of
         None \<Rightarrow> ut_conn u
       | Some c \<Rightarrow> (ut_conn u)(s \<mapsto> c\<lparr>us_closed := True\<rparr>))\<rparr>"

definition touch :: "nat \<Rightarrow> udp_sys \<Rightarrow> udp_sys" where
  "touch s u =
     u\<lparr>ut_conn := (case ut_conn u s of
         None \<Rightarrow> ut_conn u
       | Some c \<Rightarrow> (ut_conn u)(s \<mapsto> c\<lparr>us_last := ut_now u\<rparr>))\<rparr>"

definition is_closed :: "udp_sys \<Rightarrow> nat \<Rightarrow> bool" where
  "is_closed u s = (case ut_conn u s of None \<Rightarrow> True | Some c \<Rightarrow> us_closed c)"

definition goto :: "nat \<Rightarrow> fwd \<Rightarrow> fwd_pc \<Rightarrow> udp_sys \<Rightarrow> udp_sys" where
  "goto t f pc u = u\<lparr>ut_fwd := (ut_fwd u)(t \<mapsto> f\<lparr>f_pc := pc\<rparr>)\<rparr>"

definition stop :: "nat \<Rightarrow> udp_sys \<Rightarrow> udp_sys" where
  "stop t u = u\<lparr>ut_fwd := (ut_fwd u)(t := None)\<rparr>"

text \<open>
  The next step of the \<open>forward\<close> goroutine \<open>t\<close>; \<open>ok\<close> tells whether a dial or a write succeeds.
\<close>

definition forward :: "bool \<Rightarrow> nat \<Rightarrow> udp_sys \<Rightarrow> udp_sys" where
  "forward ok t u =
     (case ut_fwd u t of
        None \<Rightarrow> u
      | Some f \<Rightarrow>
         (case f_pc f of
            At_Load \<Rightarrow>
              (case ut_sess u (f_key f) of
                 Some s \<Rightarrow> goto t f (At_Touch s) u
               | None \<Rightarrow> goto t f At_Next u)
          | At_Next \<Rightarrow>
              (let (a, b) = lb_Next (ut_lb u); u1 = u\<lparr>ut_lb := b\<rparr>
               in if a = '''' then stop t u1 else goto t f (At_Dial a) u1)
          | At_Dial a \<Rightarrow>
              (if \<not> ok then stop t u
               else goto t f (At_Store (ut_fresh u)) (dial (f_key f) a u))
          | At_Store s \<Rightarrow>
              (case ut_sess u (f_key f) of
                 Some s' \<Rightarrow> goto t f (At_Lost s s') u
               | None \<Rightarrow> goto t f (At_Start s) (u\<lparr>ut_sess := (ut_sess u)(f_key f \<mapsto> s)\<rparr>))
          | At_Lost s s' \<Rightarrow> goto t f (At_Touch s') (close_conn s u)
          | At_Start s \<Rightarrow>
              goto t f (At_Touch s)
                (u\<lparr>ut_pump := (ut_pump u)(s \<mapsto> f_key f), ut_started := ut_started u @ [s]\<rparr>)
          | At_Touch s \<Rightarrow> goto t f (At_Write s) (touch s u)
          | At_Write s \<Rightarrow>
              stop t (if ok \<and> \<not> is_closed u s then u\<lparr>ut_sent := ut_sent u @ [(s, f_data f)]\<rparr> else u)))"

text \<open>
  One round of the \<open>pump\<close> of socket \<open>s\<close>: the read fails on a closed socket and may fail
  otherwise (\<open>read_ok\<close>), and so may the write back to the client.
\<close>

definition pump :: "bool \<Rightarrow> bool \<Rightarrow> nat \<Rightarrow> udp_sys \<Rightarrow> udp_sys" where
  "pump read_ok write_ok s u =
     (case ut_pump u s of
        None \<Rightarrow> u
      | Some k \<Rightarrow>
         if is_closed u s \<or> \<not> read_ok then u\<lparr>ut_pump := (ut_pump u)(s := None)\<rparr>
         else if \<not> write_ok then u\<lparr>ut_pump := (ut_pump u)(s := None)\<rparr>
         else u\<lparr>ut_replies := ut_replies u @ [(s, k)]\<rparr>)"

text \<open>
  The next step of \<open>evict\<close>. \<open>Range\<close> visits the entries in an order of its own: \<open>choice\<close> is the
  next key it visits, or its end. The last-seen time is read and compared, the socket closed and
  the entry deleted in separate steps.
\<close>

definition evict :: "int \<Rightarrow> addr option \<Rightarrow> udp_sys \<Rightarrow> udp_sys" where
  "evict idle choice u =
     (case ut_evict u of
        Ev_Idle \<Rightarrow> u\<lparr>ut_evict := Ev_Range (ut_now u - idle)\<rparr>
      | Ev_Range cutoff \<Rightarrow>
          (case choice of
             None \<Rightarrow> u\<lparr>ut_evict := Ev_Idle\<rparr>
           | Some k \<Rightarrow>
              (case ut_sess u k of
                 None \<Rightarrow> u
               | Some s \<Rightarrow> u\<lparr>ut_evict := Ev_Visit cutoff k s\<rparr>))
      | Ev_Visit cutoff k s \<Rightarrow>
          (case ut_conn u s of
             None \<Rightarrow> u\<lparr>ut_evict := Ev_Range cutoff\<rparr>
           | Some c \<Rightarrow>
              if us_last c < cutoff then (close_conn s u)\<lparr>ut_evict := Ev_Delete cutoff k s\<rparr>
              else u\<lparr>ut_evict := Ev_Range cutoff\<rparr>)
      | Ev_Delete cutoff k s \<Rightarrow> u\<lparr>ut_sess := (ut_sess u)(k := None), ut_evict := Ev_Range cutoff\<rparr>)"

text \<open>A datagram read by \<open>Listen\<close> starts a goroutine.\<close>

definition receive :: "nat \<Rightarrow> addr \<Rightarrow> string \<Rightarrow> udp_sys \<Rightarrow> udp_sys" where
  "receive t k d u = u\<lparr>ut_fwd := (ut_fwd u)(t \<mapsto> \<lparr>f_key = k, f_data = d, f_pc = At_Load\<rparr>)\<rparr>"

inductive udp_step :: "int \<Rightarrow> udp_sys \<Rightarrow> udp_sys \<Rightarrow> bool" for idle where
  us_receive: "ut_fwd u t = None \<Longrightarrow> udp_step idle u (receive t k d u)"
| us_forward: "udp_step idle u (forward ok t u)"
| us_pump: "udp_step idle u (pump read_ok write_ok s u)"
| us_evict: "udp_step idle u (evict idle choice u)"
| us_tick: "0 \<le> n \<Longrightarrow> udp_step idle u (u\<lparr>ut_now := ut_now u + n\<rparr>)"
| us_push: "udp_step idle u (u\<lparr>ut_lb := lb_SetBackends (ut_lb u) as\<rparr>)"

inductive_cases udp_step_E: "udp_step idle u v"

lemmas udp_ops = forward_def pump_def evict_def receive_def goto_def stop_def close_conn_def touch_def

section \<open>Every socket belongs to one client\<close>

fun pc_socks :: "fwd_pc \<Rightarrow> nat set" where
  "pc_socks (At_Store s) = {s}"
| "pc_socks (At_Lost s s') = {s, s'}"
| "pc_socks (At_Start s) = {s}"
| "pc_socks (At_Touch s) = {s}"
| "pc_socks (At_Write s) = {s}"
| "pc_socks pc = {}"

text \<open>
  Whoever refers to a socket (the table under a client's key, a goroutine that serves a client, a
  pump that answers one) refers to one that was dialled for that client.
\<close>

definition owned :: "udp_sys \<Rightarrow> bool" where
  "owned u \<longleftrightarrow>
     (\<forall>s. ut_fresh u \<le> s \<longrightarrow> ut_dialled u s = None) \<and>
     (\<forall>k s. ut_sess u k = Some s \<longrightarrow> ut_dialled u s = Some k) \<and>
     (\<forall>t f. ut_fwd u t = Some f \<longrightarrow> (\<forall>s\<in>pc_socks (f_pc f). ut_dialled u s = Some (f_key f))) \<and>
     (\<forall>s k. ut_pump u s = Some k \<longrightarrow> ut_dialled u s = Some k) \<and>
     (\<forall>s k. (s, k) \<in> set (ut_replies u) \<longrightarrow> ut_dialled u s = Some k) \<and>
     dom (ut_conn u) = dom (ut_dialled u)"

lemma owned_fresh: "owned u \<Longrightarrow> ut_dialled u (ut_fresh u) = None"
  by (simp add: owned_def)

lemma owned_sess: "owned u \<Longrightarrow> ut_sess u k = Some s \<Longrightarrow> ut_dialled u s = Some k"
  by (simp add: owned_def)

lemma owned_fwd:
  "owned u \<Longrightarrow> ut_fwd u t = Some f \<Longrightarrow> s \<in> pc_socks (f_pc f) \<Longrightarrow> ut_dialled u s = Some (f_key f)"
  by (simp add: owned_def)

lemma owned_pump: "owned u \<Longrightarrow> ut_pump u s = Some k \<Longrightarrow> ut_dialled u s = Some k"
  by (simp add: owned_def)

lemma owned_goto:
  assumes "owned u" "\<forall>s\<in>pc_socks pc. ut_dialled u s = Some (f_key f)"
  shows "owned (goto t f pc u)"
  using assms unfolding owned_def goto_def by simp

lemma owned_stop: "owned u \<Longrightarrow> owned (stop t u)"
  unfolding owned_def stop_def by simp

lemma owned_close: "owned u \<Longrightarrow> owned (close_conn s u)"
  unfolding owned_def close_conn_def by (auto split: option.split)

lemma owned_touch: "owned u \<Longrightarrow> owned (touch s u)"
  unfolding owned_def touch_def by (auto split: option.split)

lemma owned_lb: "owned (u\<lparr>ut_lb := b\<rparr>) = owned u"
  by (simp add: owned_def)

lemma owned_now: "owned (u\<lparr>ut_now := n\<rparr>) = owned u"
  by (simp add: owned_def)

lemma owned_evict: "owned (u\<lparr>ut_evict := e\<rparr>) = owned u"
  by (simp add: owned_def)

lemma owned_sent: "owned (u\<lparr>ut_sent := xs\<rparr>) = owned u"
  by (simp add: owned_def)

lemma owned_store:
  assumes "owned u" "ut_dialled u s = Some k"
  shows "owned (u\<lparr>ut_sess := (ut_sess u)(k \<mapsto> s)\<rparr>)"
  using assms unfolding owned_def by simp

lemma owned_delete: "owned u \<Longrightarrow> owned (u\<lparr>ut_sess := (ut_sess u)(k := None)\<rparr>)"
  unfolding owned_def by simp

lemma owned_start:
  assumes "owned u" "ut_dialled u s = Some k"
  shows "owned (u\<lparr>ut_pump := (ut_pump u)(s \<mapsto> k), ut_started := xs\<rparr>)"
  using assms unfolding owned_def by simp

lemma owned_unpump: "owned u \<Longrightarrow> owned (u\<lparr>ut_pump := (ut_pump u)(s := None)\<rparr>)"
  unfolding owned_def by simp

lemma owned_reply:
  assumes "owned u" "ut_dialled u s = Some k"
  shows "owned (u\<lparr>ut_replies := ut_replies u @ [(s, k)]\<rparr>)"
  using assms unfolding owned_def by auto

lemma owned_dial:
  assumes "owned u"
  shows "owned (dial k a u)"
proof -
  have keep: "ut_dialled u s = Some k' \<Longrightarrow> s \<noteq> ut_fresh u" for s k'
    using owned_fresh[OF assms] by auto
  show ?thesis
    using assms unfolding owned_def dial_def by (auto dest: keep)
qed

lemmas owned_prims = owned_stop owned_close owned_touch owned_store owned_delete owned_start
  owned_unpump owned_reply owned_dial

lemma dialled_frame [simp]:
  "ut_dialled (close_conn s u) = ut_dialled u" "ut_dialled (touch s u) = ut_dialled u"
  "ut_dialled (dial k a u) = (ut_dialled u)(ut_fresh u \<mapsto> k)"
  by (simp_all add: close_conn_def touch_def dial_def)

lemma owned_forward: "owned u \<Longrightarrow> owned (forward ok t u)"
proof (cases "ut_fwd u t")
  case (Some f)
  assume o: "owned u"
  note own = owned_fwd[OF o Some]
  show ?thesis
    using o own owned_sess[OF o]
    by (cases "f_pc f")
      (auto simp: forward_def Some Let_def owned_lb owned_sent split: option.split prod.split
        intro!: owned_goto owned_stop owned_close owned_touch owned_store owned_start owned_dial)
qed (simp add: forward_def)

lemma owned_step: "udp_step idle u v \<Longrightarrow> owned u \<Longrightarrow> owned v"
proof (induction rule: udp_step.induct)
  case (us_receive u t k d)
  then show ?case unfolding owned_def receive_def by simp
next
  case (us_pump u read_ok write_ok s)
  then show ?case
    by (auto simp: pump_def split: option.split intro: owned_unpump owned_reply owned_pump)
next
  case (us_evict u choice)
  then show ?case
    by (auto simp: evict_def owned_evict split: evict_pc.split option.split
        intro: owned_close owned_delete)
qed (simp_all add: owned_forward owned_lb owned_now)

lemma owned_init: "owned (NewUDP b)"
  by (simp add: owned_def NewUDP_def)

lemma owned_reach: "(udp_step idle)\<^sup>*\<^sup>* (NewUDP b) u \<Longrightarrow> owned u"
  by (induction rule: rtranclp_induct) (auto intro: owned_init owned_step)

end
