(* ===== verification/Udp_Invariant.thy ===== *)
theory Udp_Invariant
  imports Udp_Tunnel
begin

text \<open>
  The invariant of the UDP tunnel: no socket leaks, no pump is started twice, and the session table
  and the eviction agree. One lemma per goroutine, on top of a lemma for the moves that leave the
  others' sockets alone.
\<close>

section \<open>No socket leaks, no pump starts twice\<close>

text \<open>The socket a goroutine dialled and has not published, and the one it has not pumped yet.\<close>

fun pc_private :: "fwd_pc \<Rightarrow> nat option" where
  "pc_private (At_Store s) = Some s"
| "pc_private (At_Lost s s') = Some s"
| "pc_private pc = None"

fun pc_unpumped :: "fwd_pc \<Rightarrow> nat option" where
  "pc_unpumped (At_Store s) = Some s"
| "pc_unpumped (At_Lost s s') = Some s"
| "pc_unpumped (At_Start s) = Some s"
| "pc_unpumped pc = None"

lemma pc_private_unpumped: "pc_private pc = Some s \<Longrightarrow> pc_unpumped pc = Some s"
  by (cases pc) auto

lemma pc_unpumped_socks: "pc_unpumped pc = Some s \<Longrightarrow> s \<in> pc_socks pc"
  by (cases pc) auto

definition pumps_inv :: "udp_sys \<Rightarrow> bool" where
  "pumps_inv u \<longleftrightarrow>
     (\<forall>t f s. ut_fwd u t = Some f \<longrightarrow> pc_unpumped (f_pc f) = Some s \<longrightarrow> s \<notin> set (ut_started u)) \<and>
     (\<forall>t t' f f' s. ut_fwd u t = Some f \<longrightarrow> ut_fwd u t' = Some f' \<longrightarrow>
        pc_unpumped (f_pc f) = Some s \<longrightarrow> pc_unpumped (f_pc f') = Some s \<longrightarrow> t = t') \<and>
     (\<forall>t f s. ut_fwd u t = Some f \<longrightarrow> pc_private (f_pc f) = Some s \<longrightarrow>
        \<not> is_closed u s \<and> (\<forall>k. ut_sess u k \<noteq> Some s)) \<and>
     distinct (ut_started u) \<and> dom (ut_pump u) \<subseteq> set (ut_started u) \<and>
     set (ut_started u) \<subseteq> dom (ut_dialled u)"

text \<open>
  The table: the entry \<open>evict\<close> is working on is still there, a registered socket is open unless
  \<open>evict\<close> is between closing and deleting it, and an open socket is registered or still private
  to the goroutine that dialled it.
\<close>

definition table_inv :: "udp_sys \<Rightarrow> bool" where
  "table_inv u \<longleftrightarrow>
     (\<forall>c k s. ut_evict u = Ev_Visit c k s \<longrightarrow> ut_sess u k = Some s) \<and>
     (\<forall>c k s. ut_evict u = Ev_Delete c k s \<longrightarrow> ut_sess u k = Some s \<and> is_closed u s) \<and>
     (\<forall>k s. ut_sess u k = Some s \<longrightarrow> is_closed u s \<longrightarrow> (\<exists>c. ut_evict u = Ev_Delete c k s)) \<and>
     (\<forall>s. \<not> is_closed u s \<longrightarrow> (\<exists>k. ut_sess u k = Some s) \<or>
        (\<exists>t f. ut_fwd u t = Some f \<and> pc_private (f_pc f) = Some s))"

definition udp_inv :: "udp_sys \<Rightarrow> bool" where
  "udp_inv u \<longleftrightarrow> owned u \<and> pumps_inv u \<and> table_inv u"

lemma is_closed_ops [simp]:
  "is_closed (close_conn s u) x = (x = s \<or> is_closed u x)"
  "is_closed (touch s u) x = is_closed u x"
  "is_closed (dial k a u) x = (x \<noteq> ut_fresh u \<and> is_closed u x)"
  "is_closed (u\<lparr>ut_lb := b\<rparr>) x = is_closed u x"
  "is_closed (u\<lparr>ut_sess := ss\<rparr>) x = is_closed u x"
  "is_closed (u\<lparr>ut_evict := e\<rparr>) x = is_closed u x"
  "is_closed (u\<lparr>ut_fwd := ff\<rparr>) x = is_closed u x"
  "is_closed (u\<lparr>ut_pump := pp\<rparr>) x = is_closed u x"
  "is_closed (u\<lparr>ut_started := st\<rparr>) x = is_closed u x"
  "is_closed (u\<lparr>ut_sent := sn\<rparr>) x = is_closed u x"
  "is_closed (u\<lparr>ut_now := n\<rparr>) x = is_closed u x"
  "is_closed (u\<lparr>ut_replies := rs\<rparr>) x = is_closed u x"
  by (auto simp: is_closed_def close_conn_def touch_def dial_def split: option.split)

lemma conn_frame [simp]:
  "ut_fwd (close_conn s u) = ut_fwd u" "ut_fwd (touch s u) = ut_fwd u" "ut_fwd (dial k a u) = ut_fwd u"
  "ut_sess (close_conn s u) = ut_sess u" "ut_sess (touch s u) = ut_sess u" "ut_sess (dial k a u) = ut_sess u"
  "ut_pump (close_conn s u) = ut_pump u" "ut_pump (touch s u) = ut_pump u" "ut_pump (dial k a u) = ut_pump u"
  "ut_started (close_conn s u) = ut_started u" "ut_started (touch s u) = ut_started u"
  "ut_started (dial k a u) = ut_started u"
  "ut_evict (close_conn s u) = ut_evict u" "ut_evict (touch s u) = ut_evict u"
  "ut_evict (dial k a u) = ut_evict u"
  by (simp_all add: close_conn_def touch_def dial_def)

lemma goto_frame [simp]:
  "ut_sess (goto t f pc u) = ut_sess u" "ut_pump (goto t f pc u) = ut_pump u"
  "ut_started (goto t f pc u) = ut_started u" "ut_evict (goto t f pc u) = ut_evict u"
  "ut_dialled (goto t f pc u) = ut_dialled u" "is_closed (goto t f pc u) = is_closed u"
  "ut_fwd (goto t f pc u) = (ut_fwd u)(t \<mapsto> f\<lparr>f_pc := pc\<rparr>)"
  by (simp_all add: goto_def fun_eq_iff)

lemma stop_frame [simp]:
  "ut_sess (stop t u) = ut_sess u" "ut_pump (stop t u) = ut_pump u"
  "ut_started (stop t u) = ut_started u" "ut_evict (stop t u) = ut_evict u"
  "ut_dialled (stop t u) = ut_dialled u" "is_closed (stop t u) = is_closed u"
  "ut_fwd (stop t u) = (ut_fwd u)(t := None)"
  by (simp_all add: stop_def fun_eq_iff)

text \<open>The steps of a goroutine, one equation per program counter.\<close>

lemma forward_steps:
  assumes "ut_fwd u t = Some f"
  shows
    "f_pc f = At_Load \<Longrightarrow> forward ok t u =
       (case ut_sess u (f_key f) of Some s \<Rightarrow> goto t f (At_Touch s) u | None \<Rightarrow> goto t f At_Next u)"
    "f_pc f = At_Next \<Longrightarrow> forward ok t u =
       (if fst (lb_Next (ut_lb u)) = '''' then stop t (u\<lparr>ut_lb := snd (lb_Next (ut_lb u))\<rparr>)
        else goto t f (At_Dial (fst (lb_Next (ut_lb u)))) (u\<lparr>ut_lb := snd (lb_Next (ut_lb u))\<rparr>))"
    "f_pc f = At_Dial a \<Longrightarrow> forward ok t u =
       (if ok then goto t f (At_Store (ut_fresh u)) (dial (f_key f) a u) else stop t u)"
    "f_pc f = At_Store s \<Longrightarrow> forward ok t u =
       (case ut_sess u (f_key f) of Some s' \<Rightarrow> goto t f (At_Lost s s') u
        | None \<Rightarrow> goto t f (At_Start s) (u\<lparr>ut_sess := (ut_sess u)(f_key f \<mapsto> s)\<rparr>))"
    "f_pc f = At_Lost s s' \<Longrightarrow> forward ok t u = goto t f (At_Touch s') (close_conn s u)"
    "f_pc f = At_Start s \<Longrightarrow> forward ok t u =
       goto t f (At_Touch s)
         (u\<lparr>ut_pump := (ut_pump u)(s \<mapsto> f_key f), ut_started := ut_started u @ [s]\<rparr>)"
    "f_pc f = At_Touch s \<Longrightarrow> forward ok t u = goto t f (At_Write s) (touch s u)"
    "f_pc f = At_Write s \<Longrightarrow> forward ok t u =
       stop t (if ok \<and> \<not> is_closed u s then u\<lparr>ut_sent := ut_sent u @ [(s, f_data f)]\<rparr> else u)"
  using assms by (auto simp: forward_def Let_def split: prod.split option.split)

lemma pumps_invI:
  assumes "\<And>t f s. ut_fwd u t = Some f \<Longrightarrow> pc_unpumped (f_pc f) = Some s \<Longrightarrow> s \<notin> set (ut_started u)"
    and "\<And>t t' f f' s. ut_fwd u t = Some f \<Longrightarrow> ut_fwd u t' = Some f' \<Longrightarrow>
        pc_unpumped (f_pc f) = Some s \<Longrightarrow> pc_unpumped (f_pc f') = Some s \<Longrightarrow> t = t'"
    and "\<And>t f s. ut_fwd u t = Some f \<Longrightarrow> pc_private (f_pc f) = Some s \<Longrightarrow>
        \<not> is_closed u s \<and> (\<forall>k. ut_sess u k \<noteq> Some s)"
    and "distinct (ut_started u)" "dom (ut_pump u) \<subseteq> set (ut_started u)"
      "set (ut_started u) \<subseteq> dom (ut_dialled u)"
  shows "pumps_inv u"
proof -
  have "\<forall>t f s. ut_fwd u t = Some f \<longrightarrow> pc_unpumped (f_pc f) = Some s \<longrightarrow> s \<notin> set (ut_started u)"
    by (intro allI impI) (rule assms(1))
  moreover have "\<forall>t t' f f' s. ut_fwd u t = Some f \<longrightarrow> ut_fwd u t' = Some f' \<longrightarrow>
      pc_unpumped (f_pc f) = Some s \<longrightarrow> pc_unpumped (f_pc f') = Some s \<longrightarrow> t = t'"
    by (intro allI impI) (rule assms(2))
  moreover have "\<forall>t f s. ut_fwd u t = Some f \<longrightarrow> pc_private (f_pc f) = Some s \<longrightarrow>
      \<not> is_closed u s \<and> (\<forall>k. ut_sess u k \<noteq> Some s)"
    by (intro allI impI) (rule assms(3))
  ultimately show ?thesis
    using assms(4-6) by (simp only: pumps_inv_def simp_thms)
qed

lemma pumps_invD:
  assumes "pumps_inv u"
  shows "ut_fwd u t = Some f \<Longrightarrow> pc_unpumped (f_pc f) = Some s \<Longrightarrow> s \<notin> set (ut_started u)"
    and "ut_fwd u t = Some f \<Longrightarrow> ut_fwd u t' = Some f' \<Longrightarrow>
        pc_unpumped (f_pc f) = Some s \<Longrightarrow> pc_unpumped (f_pc f') = Some s \<Longrightarrow> t = t'"
    and "ut_fwd u t = Some f \<Longrightarrow> pc_private (f_pc f) = Some s \<Longrightarrow>
        \<not> is_closed u s \<and> (\<forall>k. ut_sess u k \<noteq> Some s)"
    and "distinct (ut_started u)" "dom (ut_pump u) \<subseteq> set (ut_started u)"
      "set (ut_started u) \<subseteq> dom (ut_dialled u)"
  using assms unfolding pumps_inv_def by blast+

text \<open>
  A step that moves one goroutine and changes no socket, table entry or pump the others hold.
\<close>

lemma pumps_inv_move:
  assumes inv: "pumps_inv u" "owned u"
    and from_u: "\<And>x g s. ut_fwd v x = Some g \<Longrightarrow> pc_unpumped (f_pc g) = Some s \<Longrightarrow>
      (\<exists>f. ut_fwd u x = Some f \<and> pc_unpumped (f_pc f) = Some s) \<or> x = t \<and> ut_dialled u s = None"
    and priv: "\<And>x g s. ut_fwd v x = Some g \<Longrightarrow> pc_private (f_pc g) = Some s \<Longrightarrow>
      \<not> is_closed v s \<and> (\<forall>k. ut_sess v k \<noteq> Some s)"
    and same: "ut_started v = ut_started u" "dom (ut_pump v) \<subseteq> dom (ut_pump u)"
      "dom (ut_dialled u) \<subseteq> dom (ut_dialled v)"
  shows "pumps_inv v"
proof (rule pumps_invI; (unfold same(1))?)
  have known: "ut_dialled u s \<noteq> None" if "ut_fwd u x = Some g" "pc_unpumped (f_pc g) = Some s" for x g s
    using owned_fwd[OF inv(2) that(1) pc_unpumped_socks[OF that(2)]] by simp
  show "s \<notin> set (ut_started u)" if "ut_fwd v x = Some g" "pc_unpumped (f_pc g) = Some s" for x g s
    using from_u[OF that] pumps_invD(1,6)[OF inv(1)] by blast
  show "x = y" if "ut_fwd v x = Some g" "ut_fwd v y = Some h" "pc_unpumped (f_pc g) = Some s"
    "pc_unpumped (f_pc h) = Some s" for x y g h s
    using from_u[OF that(1,3)] from_u[OF that(2,4)] known pumps_invD(2)[OF inv(1)] by blast
  show "\<not> is_closed v s \<and> (\<forall>k. ut_sess v k \<noteq> Some s)"
    if "ut_fwd v x = Some g" "pc_private (f_pc g) = Some s" for x g s
    using priv[OF that] .
  show "distinct (ut_started u)" using pumps_invD(4)[OF inv(1)] .
  show "dom (ut_pump v) \<subseteq> set (ut_started u)" using same(2) pumps_invD(5)[OF inv(1)] by (rule subset_trans)
  show "set (ut_started u) \<subseteq> dom (ut_dialled v)" using pumps_invD(6)[OF inv(1)] same(3) by (rule subset_trans)
qed

lemma pumps_inv_forward:
  assumes "owned u" "pumps_inv u"
  shows "pumps_inv (forward ok t u)"
proof (cases "ut_fwd u t")
  case None
  with assms show ?thesis by (simp add: forward_def)
next
  case (Some f)
  note st = forward_steps[OF Some]
  note priv = pumps_invD(3)[OF assms(2)]
  have uniq: "x = t"
    if "ut_fwd u x = Some g" "pc_unpumped (f_pc g) = Some s" "pc_unpumped (f_pc f) = Some s" for x g s
    using pumps_invD(2)[OF assms(2) that(1) Some that(2,3)] .
  have alone: "pc_unpumped (f_pc f) \<noteq> Some s"
    if "ut_fwd u x = Some g" "x \<noteq> t" "pc_private (f_pc g) = Some s" for x g s
    using uniq[OF that(1) pc_private_unpumped[OF that(3)]] that(2) by blast
  have new: "ut_dialled u (ut_fresh u) = None" "ut_sess u k \<noteq> Some (ut_fresh u)" for k
    using owned_fresh[OF assms(1)] owned_sess[OF assms(1)] by auto
  note move = pumps_inv_move[OF assms(2,1), where t = t]
  show ?thesis
  proof (cases "f_pc f")
    case At_Load
    show ?thesis by (rule move) (use Some priv in \<open>auto simp: st(1)[OF At_Load] split: option.splits if_splits\<close>)
  next
    case At_Next
    show ?thesis by (rule move) (use Some priv in \<open>auto simp: st(2)[OF At_Next] split: if_splits\<close>)
  next
    case (At_Dial a)
    show ?thesis by (rule move) (use Some priv new in \<open>auto simp: st(3)[OF At_Dial] split: if_splits\<close>)
  next
    case (At_Store s)
    show ?thesis
      by (rule move)
        (use Some priv At_Store in
          \<open>auto simp: st(4)[OF At_Store] split: option.splits if_splits dest: alone[unfolded At_Store, simplified]\<close>)
  next
    case (At_Lost s s')
    show ?thesis
      by (rule move)
        (use Some priv At_Lost in
          \<open>auto simp: st(5)[OF At_Lost] split: if_splits dest: alone[unfolded At_Lost, simplified]\<close>)
  next
    case (At_Start s)
    have s: "s \<notin> set (ut_started u)" "ut_dialled u s = Some (f_key f)"
      using pumps_invD(1)[OF assms(2) Some, of s] owned_fwd[OF assms(1) Some, of s] At_Start by simp_all
    show ?thesis
      by (intro pumps_invI)
        (use s At_Start pumps_invD[OF assms(2)] in \<open>auto simp: st(6)[OF At_Start] split: if_splits dest: uniq\<close>)
  next
    case (At_Touch s)
    show ?thesis by (rule move) (use Some priv in \<open>auto simp: st(7)[OF At_Touch] split: if_splits\<close>)
  next
    case (At_Write s)
    show ?thesis by (rule move) (use Some priv in \<open>auto simp: st(8)[OF At_Write] split: if_splits\<close>)
  qed
qed

lemma table_invI:
  assumes "\<And>c k s. ut_evict u = Ev_Visit c k s \<Longrightarrow> ut_sess u k = Some s"
    and "\<And>c k s. ut_evict u = Ev_Delete c k s \<Longrightarrow> ut_sess u k = Some s \<and> is_closed u s"
    and "\<And>k s. ut_sess u k = Some s \<Longrightarrow> is_closed u s \<Longrightarrow> \<exists>c. ut_evict u = Ev_Delete c k s"
    and "\<And>s. \<not> is_closed u s \<Longrightarrow> (\<exists>k. ut_sess u k = Some s) \<or>
        (\<exists>t f. ut_fwd u t = Some f \<and> pc_private (f_pc f) = Some s)"
  shows "table_inv u"
proof -
  have "\<forall>c k s. ut_evict u = Ev_Visit c k s \<longrightarrow> ut_sess u k = Some s"
    by (intro allI impI) (rule assms(1))
  moreover have "\<forall>c k s. ut_evict u = Ev_Delete c k s \<longrightarrow> ut_sess u k = Some s \<and> is_closed u s"
    by (intro allI impI) (rule assms(2))
  moreover have "\<forall>k s. ut_sess u k = Some s \<longrightarrow> is_closed u s \<longrightarrow> (\<exists>c. ut_evict u = Ev_Delete c k s)"
    by (intro allI impI) (rule assms(3))
  moreover have "\<forall>s. \<not> is_closed u s \<longrightarrow> (\<exists>k. ut_sess u k = Some s) \<or>
      (\<exists>t f. ut_fwd u t = Some f \<and> pc_private (f_pc f) = Some s)"
    by (intro allI impI) (rule assms(4))
  ultimately show ?thesis by (simp only: table_inv_def simp_thms)
qed

lemma table_invD:
  assumes "table_inv u"
  shows "ut_evict u = Ev_Visit c k s \<Longrightarrow> ut_sess u k = Some s"
    and "ut_evict u = Ev_Delete c k s \<Longrightarrow> ut_sess u k = Some s \<and> is_closed u s"
    and "ut_sess u k = Some s \<Longrightarrow> is_closed u s \<Longrightarrow> \<exists>c. ut_evict u = Ev_Delete c k s"
    and "\<not> is_closed u s \<Longrightarrow> (\<exists>k. ut_sess u k = Some s) \<or>
        (\<exists>t f. ut_fwd u t = Some f \<and> pc_private (f_pc f) = Some s)"
  using assms unfolding table_inv_def by blast+

text \<open>
  A step that moves one goroutine, keeps the registered entries and their sockets, registers only
  open sockets, and leaves what it opens or had opened registered or private to it.
\<close>

lemma table_inv_move:
  assumes "table_inv u" "ut_evict v = ut_evict u"
    and keep: "\<And>k s. ut_sess u k = Some s \<Longrightarrow> ut_sess v k = Some s \<and> is_closed v s = is_closed u s"
    and new: "\<And>k s. ut_sess v k = Some s \<Longrightarrow> ut_sess u k = Some s \<or> \<not> is_closed v s"
    and others: "\<And>x. x \<noteq> t \<Longrightarrow> ut_fwd v x = ut_fwd u x"
    and opened: "\<And>s. \<not> is_closed v s \<Longrightarrow> is_closed u s \<Longrightarrow>
      \<exists>g. ut_fwd v t = Some g \<and> pc_private (f_pc g) = Some s"
    and mine: "\<And>f s. ut_fwd u t = Some f \<Longrightarrow> pc_private (f_pc f) = Some s \<Longrightarrow> \<not> is_closed v s \<Longrightarrow>
      (\<exists>k. ut_sess v k = Some s) \<or> (\<exists>g. ut_fwd v t = Some g \<and> pc_private (f_pc g) = Some s)"
  shows "table_inv v"
proof (rule table_invI; (unfold assms(2))?)
  fix c k s
  assume "ut_evict u = Ev_Visit c k s"
  then show "ut_sess v k = Some s" using table_invD(1)[OF assms(1)] keep by blast
next
  fix c k s
  assume "ut_evict u = Ev_Delete c k s"
  then show "ut_sess v k = Some s \<and> is_closed v s" using table_invD(2)[OF assms(1)] keep by blast
next
  fix k s
  assume "ut_sess v k = Some s" "is_closed v s"
  then show "\<exists>c. ut_evict u = Ev_Delete c k s" using table_invD(3)[OF assms(1)] new keep by blast
next
  fix s
  assume s: "\<not> is_closed v s"
  show "(\<exists>k. ut_sess v k = Some s) \<or> (\<exists>x g. ut_fwd v x = Some g \<and> pc_private (f_pc g) = Some s)"
  proof (cases "is_closed u s")
    case True
    then show ?thesis using opened[OF s] by blast
  next
    case False
    then consider k where "ut_sess u k = Some s" | x g where "ut_fwd u x = Some g" "pc_private (f_pc g) = Some s"
      using table_invD(4)[OF assms(1)] by blast
    then show ?thesis
    proof cases
      case 1
      then show ?thesis using keep by blast
    next
      case 2
      then show ?thesis using mine[of g s] others[of x] s by (cases "x = t") auto
    qed
  qed
qed

lemma table_inv_forward:
  assumes "owned u" "pumps_inv u" "table_inv u"
  shows "table_inv (forward ok t u)"
proof (cases "ut_fwd u t")
  case None
  with assms show ?thesis by (simp add: forward_def)
next
  case (Some f)
  note st = forward_steps[OF Some]
  note move = table_inv_move[OF assms(3), where t = t]
  have priv: "\<not> is_closed u s \<and> (\<forall>k. ut_sess u k \<noteq> Some s)" if "pc_private (f_pc f) = Some s" for s
    using pumps_invD(3)[OF assms(2) Some that] .
  have new: "ut_sess u k \<noteq> Some (ut_fresh u)" for k
    using owned_fresh[OF assms(1)] owned_sess[OF assms(1)] by auto
  show ?thesis
  proof (cases "f_pc f")
    case At_Load
    show ?thesis by (rule move) (auto simp: st(1)[OF At_Load] At_Load Some split: option.splits)
  next
    case At_Next
    show ?thesis by (rule move) (auto simp: st(2)[OF At_Next] At_Next Some split: if_splits)
  next
    case (At_Dial a)
    show ?thesis by (rule move) (auto simp: st(3)[OF At_Dial] At_Dial Some new split: if_splits)
  next
    case (At_Store s)
    show ?thesis
      by (rule move) (use priv in \<open>auto simp: st(4)[OF At_Store] At_Store Some split: option.splits if_splits\<close>)
  next
    case (At_Lost s s')
    show ?thesis by (rule move) (use priv in \<open>auto simp: st(5)[OF At_Lost] At_Lost Some\<close>)
  next
    case (At_Start s)
    show ?thesis by (rule move) (auto simp: st(6)[OF At_Start] At_Start Some)
  next
    case (At_Touch s)
    show ?thesis by (rule move) (auto simp: st(7)[OF At_Touch] At_Touch Some)
  next
    case (At_Write s)
    show ?thesis by (rule move) (auto simp: st(8)[OF At_Write] At_Write Some split: if_splits)
  qed
qed

lemma udp_inv_init: "udp_inv (NewUDP b)"
  unfolding udp_inv_def using owned_init[of b]
  by (simp add: pumps_inv_def table_inv_def NewUDP_def is_closed_def)

lemma pumps_inv_frame:
  assumes "pumps_inv u" "ut_fwd v = ut_fwd u" "ut_started v = ut_started u"
    "dom (ut_pump v) \<subseteq> dom (ut_pump u)" "ut_dialled v = ut_dialled u"
    "\<And>s. \<not> is_closed u s \<Longrightarrow> (\<forall>k. ut_sess u k \<noteq> Some s) \<Longrightarrow> \<not> is_closed v s \<and> (\<forall>k. ut_sess v k \<noteq> Some s)"
  shows "pumps_inv v"
proof (rule pumps_invI; (unfold assms(2,3,5))?)
  fix t f s
  assume "ut_fwd u t = Some f" "pc_private (f_pc f) = Some s"
  then show "\<not> is_closed v s \<and> (\<forall>k. ut_sess v k \<noteq> Some s)"
    using pumps_invD(3)[OF assms(1)] assms(6) by blast
next
  show "dom (ut_pump v) \<subseteq> set (ut_started u)"
    using assms(4) pumps_invD(5)[OF assms(1)] by (rule subset_trans)
qed (fact pumps_invD[OF assms(1)])+

lemma table_inv_frame:
  assumes "table_inv u" "ut_fwd v = ut_fwd u" "ut_sess v = ut_sess u" "ut_evict v = ut_evict u"
    "is_closed v = is_closed u"
  shows "table_inv v"
  using assms(1) unfolding table_inv_def assms(2-5) .

lemma pumps_inv_evict:
  assumes "pumps_inv u" "table_inv u"
  shows "pumps_inv (evict idle choice u)"
  using assms(2)
  by (intro pumps_inv_frame[OF assms(1)])
    (auto simp: evict_def table_inv_def split: evict_pc.split option.split)

lemma table_inv_pc:
  assumes "table_inv u" "\<And>c k s. ut_evict u \<noteq> Ev_Delete c k s" "\<And>c k s. e \<noteq> Ev_Delete c k s"
    "\<And>c k s. e = Ev_Visit c k s \<Longrightarrow> ut_sess u k = Some s"
  shows "table_inv (u\<lparr>ut_evict := e\<rparr>)"
  using assms table_invD(3,4)[OF assms(1)] by (intro table_invI) auto

text \<open>The two halves of evicting a session: close its socket, then drop its entry.\<close>

lemma table_inv_close:
  assumes "owned u" "table_inv u" "ut_evict u = Ev_Visit c k s"
  shows "table_inv ((close_conn s u)\<lparr>ut_evict := Ev_Delete c k s\<rparr>)"
proof -
  have k: "ut_sess u k = Some s" using table_invD(1)[OF assms(2,3)] .
  have live: "\<not> is_closed u x" if "ut_sess u k' = Some x" for k' x
    using table_invD(3)[OF assms(2) that] assms(3) by auto
  have key: "k' = k" if "ut_sess u k' = Some s" for k'
    using owned_sess[OF assms(1) that] owned_sess[OF assms(1) k] by simp
  show ?thesis
    by (rule table_invI) (use table_invD(4)[OF assms(2)] in \<open>auto simp: k dest: live key\<close>)
qed

lemma table_inv_delete:
  assumes "table_inv u" "ut_evict u = Ev_Delete c k s"
  shows "table_inv (u\<lparr>ut_sess := (ut_sess u)(k := None), ut_evict := Ev_Range c\<rparr>)" (is "table_inv ?v")
proof -
  have k: "ut_sess u k = Some s" "is_closed u s" using table_invD(2)[OF assms] by simp_all
  show ?thesis
  proof (rule table_invI)
    fix x
    assume "\<not> is_closed ?v x"
    then have x: "x \<noteq> s" "\<not> is_closed u x" using k(2) by auto
    then have "ut_sess u k' = Some x \<Longrightarrow> ut_sess ?v k' = Some x" for k' using k(1) by auto
    then show "(\<exists>k'. ut_sess ?v k' = Some x) \<or> (\<exists>t f. ut_fwd ?v t = Some f \<and> pc_private (f_pc f) = Some x)"
      using table_invD(4)[OF assms(1) x(2)] by (simp del: fun_upd_apply) blast
  next
    fix k' x
    assume "ut_sess ?v k' = Some x" "is_closed ?v x"
    then show "\<exists>c. ut_evict ?v = Ev_Delete c k' x"
      using table_invD(3)[OF assms(1), of k' x] assms(2) by (auto split: if_splits)
  qed simp_all
qed

lemma table_inv_evict:
  assumes "owned u" "table_inv u"
  shows "table_inv (evict idle choice u)"
proof (cases "ut_evict u")
  case (Ev_Visit c k s)
  then show ?thesis using table_invD(1)[OF assms(2) Ev_Visit] table_inv_close[OF assms Ev_Visit]
    by (auto simp: evict_def intro: table_inv_pc[OF assms(2)] split: option.split)
next
  case (Ev_Delete c k s)
  then show ?thesis using table_inv_delete[OF assms(2) Ev_Delete] by (simp add: evict_def)
qed (use assms(2) in \<open>auto simp: evict_def intro: table_inv_pc[OF assms(2)] split: option.split\<close>)

lemma pump_frame [simp]:
  "ut_fwd (pump r w s u) = ut_fwd u" "ut_sess (pump r w s u) = ut_sess u"
  "ut_evict (pump r w s u) = ut_evict u" "is_closed (pump r w s u) = is_closed u"
  "ut_started (pump r w s u) = ut_started u" "ut_dialled (pump r w s u) = ut_dialled u"
  by (auto simp: pump_def fun_eq_iff split: option.split)

lemma pump_dom: "dom (ut_pump (pump r w s u)) \<subseteq> dom (ut_pump u)"
  by (auto simp: pump_def split: option.split)

lemma udp_inv_receive:
  assumes "udp_inv u" "ut_fwd u t = None"
  shows "pumps_inv (receive t k d u) \<and> table_inv (receive t k d u)"
proof -
  have i: "owned u" "pumps_inv u" "table_inv u" using assms(1) by (simp_all add: udp_inv_def)
  have v: "ut_fwd (receive t k d u) = (ut_fwd u)(t \<mapsto> \<lparr>f_key = k, f_data = d, f_pc = At_Load\<rparr>)"
    "ut_sess (receive t k d u) = ut_sess u" "ut_evict (receive t k d u) = ut_evict u"
    "is_closed (receive t k d u) = is_closed u" "ut_started (receive t k d u) = ut_started u"
    "ut_dialled (receive t k d u) = ut_dialled u" "ut_pump (receive t k d u) = ut_pump u"
    by (simp_all add: receive_def fun_eq_iff)
  have "pumps_inv (receive t k d u)"
    by (rule pumps_inv_move[OF i(2,1), where t = t])
      (use pumps_invD(3)[OF i(2)] in \<open>auto simp: v split: if_splits\<close>)
  moreover have "table_inv (receive t k d u)"
    by (rule table_inv_move[OF i(3), where t = t]) (use assms(2) in \<open>auto simp: v\<close>)
  ultimately show ?thesis ..
qed

lemma udp_inv_frame:
  assumes "udp_inv u" "ut_fwd v = ut_fwd u" "ut_sess v = ut_sess u" "ut_evict v = ut_evict u"
    "is_closed v = is_closed u" "ut_started v = ut_started u" "ut_dialled v = ut_dialled u"
    "dom (ut_pump v) \<subseteq> dom (ut_pump u)"
  shows "pumps_inv v \<and> table_inv v"
proof -
  have "pumps_inv u" "table_inv u" using assms(1) by (simp_all add: udp_inv_def)
  then show ?thesis using assms(2-) pumps_inv_frame[of u v] table_inv_frame[of u v] by simp
qed

lemma udp_inv_step:
  assumes "udp_step idle u v" "udp_inv u"
  shows "udp_inv v"
proof -
  have i: "owned u" "pumps_inv u" "table_inv u" using assms(2) by (simp_all add: udp_inv_def)
  from assms(1) have "pumps_inv v \<and> table_inv v"
  proof (cases rule: udp_step.cases)
    case (us_receive t k d)
    with assms(2) show ?thesis by (simp add: udp_inv_receive)
  next
    case (us_forward ok t)
    with i show ?thesis by (simp add: pumps_inv_forward table_inv_forward)
  next
    case (us_pump r w s)
    show ?thesis unfolding us_pump by (rule udp_inv_frame[OF assms(2)]) (simp_all add: pump_dom)
  next
    case (us_evict choice)
    with i show ?thesis by (simp add: pumps_inv_evict table_inv_evict)
  next
    case (us_tick n)
    show ?thesis unfolding us_tick by (rule udp_inv_frame[OF assms(2)]) (simp_all add: fun_eq_iff)
  next
    case (us_push as)
    show ?thesis unfolding us_push by (rule udp_inv_frame[OF assms(2)]) (simp_all add: fun_eq_iff)
  qed
  with owned_step[OF assms(1)] i show ?thesis by (simp add: udp_inv_def)
qed

lemma udp_inv_reach: "(udp_step idle)\<^sup>*\<^sup>* (NewUDP b) u \<Longrightarrow> udp_inv u"
  by (induction rule: rtranclp_induct) (auto intro: udp_inv_init udp_inv_step)

end
