(* ===== verification/Udp_Delivery.thy ===== *)
theory Udp_Delivery
  imports Udp_Invariant
begin

text \<open>
  What the invariant gives: the state of published sockets, the fate of one datagram's goroutine, and the
  session whose reply pump has ended.
\<close>

section \<open>What the invariant gives\<close>

text \<open>A published open socket is the one the table holds for its client.\<close>

lemma open_published:
  assumes "udp_inv u" "\<not> is_closed u s" "s \<in> set (ut_started u)" "ut_dialled u s = Some k"
  shows "ut_sess u k = Some s"
proof -
  have "\<not> (\<exists>t f. ut_fwd u t = Some f \<and> pc_private (f_pc f) = Some s)"
    using assms(1,3) pumps_invD(1) pc_private_unpumped unfolding udp_inv_def by blast
  with table_invD(4)[of u s] assms(1,2) obtain k' where k': "ut_sess u k' = Some s"
    unfolding udp_inv_def by blast
  with owned_sess[of u k' s] assms(1,4) have "k' = k" by (simp add: udp_inv_def)
  with k' show ?thesis by simp
qed

lemma pump_published:
  assumes "udp_inv u" "ut_pump u s = Some k" "\<not> is_closed u s"
  shows "ut_sess u k = Some s"
  using assms pumps_invD(5)[of u] owned_pump[of u s k]
  by (intro open_published) (auto simp: udp_inv_def)

text \<open>A datagram's goroutine ends after at most seven steps of its own.\<close>

fun pc_rank :: "fwd_pc \<Rightarrow> nat" where
  "pc_rank At_Load = 6"
| "pc_rank At_Next = 5"
| "pc_rank (At_Dial a) = 4"
| "pc_rank (At_Store s) = 3"
| "pc_rank (At_Lost s s') = 2"
| "pc_rank (At_Start s) = 2"
| "pc_rank (At_Touch s) = 1"
| "pc_rank (At_Write s) = 0"

definition fwd_left :: "udp_sys \<Rightarrow> nat \<Rightarrow> nat" where
  "fwd_left u t = (case ut_fwd u t of None \<Rightarrow> 0 | Some f \<Rightarrow> Suc (pc_rank (f_pc f)))"

lemma forward_decreases:
  assumes "ut_fwd u t \<noteq> None"
  shows "fwd_left (forward ok t u) t < fwd_left u t"
proof -
  obtain f where f: "ut_fwd u t = Some f" using assms by auto
  show ?thesis
    using forward_steps[OF f] f
    by (cases "f_pc f") (auto simp: fwd_left_def split: option.split)
qed

lemma forward_others: "t' \<noteq> t \<Longrightarrow> ut_fwd (forward ok t u) t' = ut_fwd u t'"
proof (cases "ut_fwd u t")
  case (Some f)
  assume "t' \<noteq> t"
  then show ?thesis
    using forward_steps[OF Some] by (cases "f_pc f") (auto split: option.split)
qed (simp add: forward_def)

definition run_fwd :: "nat \<Rightarrow> nat \<Rightarrow> udp_sys \<Rightarrow> udp_sys" where
  "run_fwd t n u = (forward True t ^^ n) u"

section \<open>A pump that has ended\<close>

text \<open>
  \<open>pump\<close> returns on any read error, also on the ones a connected UDP socket reports when the
  backend's port was unreachable. The session stays in the table, and since only \<open>forward\<close>
  starts pumps, and only for a session it stored, nothing reads the socket any more.
\<close>

definition deaf :: "addr \<Rightarrow> nat \<Rightarrow> udp_sys \<Rightarrow> bool" where
  "deaf k s u \<longleftrightarrow> ut_sess u k = Some s \<and> \<not> is_closed u s \<and> s \<in> set (ut_started u) \<and> ut_pump u s = None"

definition replies_to :: "addr \<Rightarrow> udp_sys \<Rightarrow> (nat \<times> addr) list" where
  "replies_to k u = filter (\<lambda>(s, c). c = k) (ut_replies u)"

lemma forward_replies [simp]: "ut_replies (forward ok t u) = ut_replies u"
  by (auto simp: forward_def goto_def stop_def close_conn_def touch_def dial_def Let_def
      split: option.split fwd_pc.split prod.split)

lemma evict_replies [simp]: "ut_replies (evict idle c u) = ut_replies u"
  by (auto simp: evict_def close_conn_def split: option.split evict_pc.split)

lemma forward_deaf:
  assumes "udp_inv u" "deaf k s u"
  shows "deaf k s (forward ok t u)"
proof (cases "ut_fwd u t")
  case None
  with assms show ?thesis by (simp add: forward_def)
next
  case (Some f)
  have i: "owned u" "pumps_inv u" "table_inv u" using assms(1) by (simp_all add: udp_inv_def)
  note st = forward_steps[OF Some]
  have "pc_unpumped (f_pc f) \<noteq> Some s"
    using pumps_invD(1)[OF i(2) Some] assms(2) by (auto simp: deaf_def)
  with assms(2) st show ?thesis
    by (cases "f_pc f") (auto simp: deaf_def split: option.split)
qed

lemma evict_deaf:
  assumes "udp_inv u" "deaf k s u"
  shows "deaf k s (evict idle c u) \<or> is_closed (evict idle c u) s"
proof (cases "ut_evict u")
  case (Ev_Delete cut k' s')
  then have "ut_sess u k' = Some s'" "is_closed u s'"
    using table_invD(2)[of u cut k' s'] assms(1) by (auto simp: udp_inv_def)
  then have "k' \<noteq> k" using assms(2) by (auto simp: deaf_def)
  with assms(2) Ev_Delete show ?thesis by (simp add: deaf_def evict_def)
qed (use assms(2) in \<open>auto simp: deaf_def evict_def split: option.split\<close>)

lemma deaf_step:
  assumes "udp_inv u" "deaf k s u" "udp_step idle u v"
  shows "replies_to k v = replies_to k u \<and> (deaf k s v \<or> is_closed v s)"
  using assms(3)
proof (cases rule: udp_step.cases)
  case (us_receive t k' d)
  with assms(2) show ?thesis by (simp add: receive_def deaf_def replies_to_def)
next
  case (us_forward ok t)
  with forward_deaf[OF assms(1,2)] show ?thesis by (simp add: replies_to_def)
next
  case (us_pump r w s')
  have "ut_pump u s' = Some k \<Longrightarrow> is_closed u s'"
    using pump_published[OF assms(1), of s' k] assms(2) unfolding deaf_def by force
  with assms(2) us_pump show ?thesis
    by (auto simp: pump_def deaf_def replies_to_def split: option.split)
next
  case (us_evict c)
  with evict_deaf[OF assms(1,2)] show ?thesis by (simp add: replies_to_def)
next
  case (us_tick n)
  with assms(2) show ?thesis by (simp add: deaf_def replies_to_def)
next
  case (us_push as)
  with assms(2) show ?thesis by (simp add: deaf_def replies_to_def)
qed

lemma forward_closed:
  assumes "s \<noteq> ut_fresh u" "is_closed u s"
  shows "is_closed (forward ok t u) s"
proof (cases "ut_fwd u t")
  case (Some f)
  with forward_steps[OF Some] assms show ?thesis by (cases "f_pc f") (auto split: option.split)
qed (use assms in \<open>simp add: forward_def\<close>)

lemma evict_closed: "is_closed u s \<Longrightarrow> is_closed (evict idle c u) s"
  by (auto simp: evict_def split: evict_pc.split option.split)

lemma closed_step:
  assumes "owned u" "ut_dialled u s = Some k" "is_closed u s" "udp_step idle u v"
  shows "is_closed v s"
proof -
  have "s \<noteq> ut_fresh u" using owned_fresh[OF assms(1)] assms(2) by auto
  from assms(4) show ?thesis
    by cases (use assms(3) forward_closed[OF \<open>s \<noteq> ut_fresh u\<close>] evict_closed in \<open>simp_all add: receive_def\<close>)
qed

lemma dialled_step:
  assumes "owned u" "ut_dialled u s = Some k" "udp_step idle u v"
  shows "ut_dialled v s = Some k"
proof -
  have new: "s \<noteq> ut_fresh u" using owned_fresh[OF assms(1)] assms(2) by auto
  have f: "ut_dialled (forward ok t u) s = Some k" for ok t
  proof (cases "ut_fwd u t")
    case (Some f)
    with forward_steps[OF Some] assms(2) new show ?thesis by (cases "f_pc f") (auto split: option.split)
  qed (use assms(2) in \<open>simp add: forward_def\<close>)
  have e: "ut_dialled (evict idle c u) = ut_dialled u" for c
    by (auto simp: evict_def split: evict_pc.split option.split)
  from assms(3) show ?thesis
    by cases (use assms(2) f e in \<open>simp_all add: receive_def\<close>)
qed

lemma udp_inv_owned: "udp_inv u \<Longrightarrow> owned u"
  by (simp add: udp_inv_def)

text \<open>Until the socket is closed, whatever else happens, the client gets no reply any more.\<close>

lemma deaf_run:
  assumes "(udp_step idle)\<^sup>*\<^sup>* u v" "udp_inv u" "deaf k s u" "\<not> is_closed v s"
  shows "udp_inv v \<and> deaf k s v \<and> replies_to k v = replies_to k u"
  using assms
proof (induction rule: rtranclp_induct)
  case (step v w)
  have reach: "udp_inv v" using step.hyps(1) step.prems(1)
    by (induction rule: rtranclp_induct) (auto intro: udp_inv_step)
  have "ut_dialled u s = Some k" using step.prems(1,2) owned_sess by (auto simp: udp_inv_def deaf_def)
  with step.hyps(1) step.prems(1) have "udp_inv v \<and> ut_dialled v s = Some k"
    by (induction rule: rtranclp_induct) (auto intro: dialled_step[OF udp_inv_owned] udp_inv_step)
  then have "ut_dialled v s = Some k" ..
  then have "\<not> is_closed v s"
    using closed_step[OF _ _ _ step.hyps(2), of s k] reach step.prems(3) by (auto simp: udp_inv_def)
  from step.IH[OF step.prems(1,2) this] deaf_step[OF reach _ step.hyps(2), of k s] step.prems(3)
    udp_inv_step[OF step.hyps(2) reach]
  show ?case by auto
qed simp

section \<open>One datagram\<close>

lemma run_fwd_simps:
  "run_fwd t 0 u = u" "run_fwd t (Suc n) u = run_fwd t n (forward True t u)"
  by (simp_all add: run_fwd_def funpow_swap1)

text \<open>The first datagram of a client, undisturbed: a session on the backend \<open>Next\<close> picked.\<close>

definition first_sent :: "nat \<Rightarrow> addr \<Rightarrow> string \<Rightarrow> udp_sys \<Rightarrow> udp_sys" where
  "first_sent t k d u =
     (let s = ut_fresh u
      in u\<lparr>ut_lb := snd (lb_Next (ut_lb u)), ut_sess := (ut_sess u)(k \<mapsto> s),
           ut_conn := (ut_conn u)(s \<mapsto> \<lparr>us_backend = fst (lb_Next (ut_lb u)), us_last = ut_now u, us_closed = False\<rparr>),
           ut_fresh := Suc s, ut_fwd := (ut_fwd u)(t := None), ut_pump := (ut_pump u)(s \<mapsto> k),
           ut_sent := ut_sent u @ [(s, d)], ut_dialled := (ut_dialled u)(s \<mapsto> k),
           ut_started := ut_started u @ [s]\<rparr>)"

lemma first_datagram:
  assumes "ut_fwd u t = Some \<lparr>f_key = k, f_data = d, f_pc = At_Load\<rparr>" "ut_sess u k = None"
    "fst (lb_Next (ut_lb u)) \<noteq> ''''"
  shows "run_fwd t 7 u = first_sent t k d u"
  using assms
  by (simp add: first_sent_def run_fwd_simps numeral_eq_Suc forward_def goto_def stop_def dial_def touch_def
      is_closed_def Let_def split_beta)

text \<open>A later one goes to the same socket, without the balancer.\<close>

lemma next_datagram:
  assumes "ut_fwd u t = Some \<lparr>f_key = k, f_data = d, f_pc = At_Load\<rparr>" "ut_sess u k = Some s"
    "ut_conn u s = Some c" "\<not> us_closed c"
  shows "run_fwd t 3 u =
    u\<lparr>ut_conn := (ut_conn u)(s \<mapsto> c\<lparr>us_last := ut_now u\<rparr>), ut_fwd := (ut_fwd u)(t := None),
      ut_sent := ut_sent u @ [(s, d)]\<rparr>"
  using assms
  by (simp add: run_fwd_simps numeral_eq_Suc forward_def goto_def stop_def touch_def is_closed_def)

lemma forward_reach: "(udp_step idle)\<^sup>*\<^sup>* u (run_fwd t n u)"
proof (induction n)
  case (Suc n)
  have "udp_step idle (run_fwd t n u) (forward True t (run_fwd t n u))" by (rule us_forward)
  with Suc show ?case by (simp add: run_fwd_def)
qed (simp add: run_fwd_def)

text \<open>One datagram and one failed read make a client deaf.\<close>

lemma becomes_deaf:
  assumes "ut_fwd u t = None" "ut_sess u k = None" "fst (lb_Next (ut_lb u)) \<noteq> ''''"
  shows "\<exists>v. (udp_step idle)\<^sup>*\<^sup>* u v \<and> deaf k (ut_fresh u) v"
proof -
  let ?r = "receive t k d u"
  let ?f = "first_sent t k d ?r"
  have "udp_step idle u ?r" by (rule us_receive[OF assms(1)])
  also have "(udp_step idle)\<^sup>*\<^sup>* ?r (run_fwd t 7 ?r)" by (rule forward_reach)
  also have "run_fwd t 7 ?r = ?f" by (rule first_datagram) (use assms in \<open>simp_all add: receive_def\<close>)
  also have "udp_step idle ?f (pump False True (ut_fresh u) ?f)" by (rule us_pump)
  finally have "(udp_step idle)\<^sup>*\<^sup>* u (pump False True (ut_fresh u) ?f)" .
  moreover have "deaf k (ut_fresh u) (pump False True (ut_fresh u) ?f)"
    by (simp add: first_sent_def receive_def pump_def deaf_def is_closed_def Let_def)
  ultimately show ?thesis by blast
qed

end
