(* ===== verification/Tunnel_Props.thy ===== *)
theory Tunnel_Props
  imports Tunnel Udp_Delivery
begin

text \<open>
  The properties of the two tunnels over every interleaving of their goroutines: the connection
  counters of the TCP tunnel, the ownership, uniqueness and lifetime of UDP sessions, the delivery
  of a datagram, and the session whose reply pump has ended.
\<close>

section \<open>TCP\<close>

text \<open>C14: In every reachable state of any number of concurrent TCP connections and health pushes that
  keep an address listed, the least-connections counter of the address is the number of connections
  that were counted on it and not released, and a connection whose goroutine has returned holds neither
  the client's socket nor the backend's.\<close>

theorem tunnel_counts_in_flight:
  assumes "a \<in> set as"
    "(tun_step (\<lambda>live. a \<in> set live))\<^sup>*\<^sup>* (task_init (NewFromConfig as ws ''least_connections'')) s"
  shows "lb_count (tk_lb s) a = of_nat (card (in_flight s a)) \<and>
    (\<forall>i c. tk_tasks s i = Some c \<and> tc_pc c = TC_Done \<longrightarrow>
       tc_client c = Sk_Closed \<and> tc_backend c \<in> {None, Some Sk_Closed})"
proof -
  note r = assms(2)[unfolded tun_step_def]
  have "conn_ok c" if "tk_tasks s i = Some c" for i c using tun.reach_counts(2)[OF assms(1) r that] .
  then show ?thesis
    using tun.reach_counts(1)[OF assms(1) r] by (force simp: in_flight_def conn_ok_def)
qed

text \<open>A connection that has been counted and is about to dial.\<close>

definition counted_conn :: "tun_conn" where
  "counted_conn = accepted\<lparr>tc_pc := TC_Dial ''a''\<rparr>"

definition one_conn :: tun_sys where
  "one_conn =
     (let b = NewFromConfig [''a'', ''b''] [] ''least_connections''
      in \<lparr>tk_lb = lb_Acquire (snd (lb_Next b)) ''a'', tk_open = True, tk_tasks = [7 \<mapsto> counted_conn]\<rparr>)"

lemma one_conn_reached:
  "(tun_step (\<lambda>live. ''a'' \<in> set live))\<^sup>*\<^sup>* (task_init (NewFromConfig [''a'', ''b''] [] ''least_connections'')) one_conn"
proof -
  let ?b = "NewFromConfig [''a'', ''b''] [] ''least_connections''"
  let ?step = "tun_step (\<lambda>live. ''a'' \<in> set live)"
  let ?s1 = "(task_init ?b)\<lparr>tk_tasks := [7 \<mapsto> accepted]\<rparr>"
  let ?s2 = "?s1\<lparr>tk_lb := snd (lb_Next ?b), tk_tasks := [7 \<mapsto> accepted\<lparr>tc_pc := TC_Acquire ''a''\<rparr>]\<rparr>"
  have a: "fst (lb_Next ?b) = ''a''" by code_simp
  have "?step (task_init ?b) ?s1"
    using task_step.spawn[of "task_init ?b" 7] by (simp add: tun_step_def task_init_def)
  moreover have "?step ?s1 ?s2"
  proof -
    have "handle_step ok up accepted ?b = (accepted\<lparr>tc_pc := TC_Acquire ''a''\<rparr>, snd (lb_Next ?b))" for ok up
      using a by (cases "lb_Next ?b") (simp add: handle_step_def accepted_def)
    then show ?thesis
      using tun_step_run[of ?s1 7 accepted True True] by (simp add: task_init_def accepted_def)
  qed
  moreover have "?step ?s2 one_conn"
    using tun_step_run[of ?s2 7 "accepted\<lparr>tc_pc := TC_Acquire ''a''\<rparr>" True True "counted_conn"]
    by (simp add: task_init_def one_conn_def counted_conn_def handle_step_def Let_def)
  ultimately show ?thesis by (meson rtranclp.rtrancl_refl rtranclp.rtrancl_into_rtrancl)
qed

theorem tunnel_counts_in_flight_witness: "lb_count (tk_lb one_conn) ''a'' = of_nat (card (in_flight one_conn ''a''))"
  using tunnel_counts_in_flight[OF _ one_conn_reached] by simp

text \<open>C15: A connection, wherever its goroutine stands, is finished by seven more of its steps once its two copies
  end: both sockets are closed, and the counter of the backend goes down by one if it had been counted
  there, every other counter staying as it is.\<close>

theorem tunnel_connection_returns:
  assumes "conn_ok c"
  shows "tc_pc (fst (run_handle 7 ok (c, b))) = TC_Done \<and> tc_client (fst (run_handle 7 ok (c, b))) = Sk_Closed \<and>
    tc_backend (fst (run_handle 7 ok (c, b))) \<in> {None, Some Sk_Closed} \<and>
    lb_count (snd (run_handle 7 ok (c, b))) a =
      (if lb_tracks b a \<and> counted (tc_pc c) = Some a then lb_count b a - 1 else lb_count b a)"
proof -
  have "conn_left (tc_pc c) \<le> 7" by (cases "tc_pc c") auto
  then have d: "tc_pc (fst (run_handle 7 ok (c, b))) = TC_Done" by (rule run_handle_done)
  with run_handle_ok[OF assms, of 7 ok b] run_handle_count[of 7 ok c b a] show ?thesis
    by (auto simp: conn_ok_def held_def)
qed

theorem tunnel_connection_returns_witness:
  "lb_count (snd (run_handle 7 True (counted_conn, tk_lb one_conn))) ''a'' = lb_count (tk_lb one_conn) ''a'' - 1"
proof -
  have "conn_ok counted_conn" by (simp add: conn_ok_def counted_conn_def accepted_def)
  moreover have "lb_tracks (tk_lb one_conn) ''a''" by code_simp
  moreover have "counted (tc_pc counted_conn) = Some ''a''" by (simp add: counted_conn_def)
  ultimately show ?thesis using tunnel_connection_returns[of counted_conn True "tk_lb one_conn" "''a''"] by simp
qed

section \<open>UDP sessions\<close>

text \<open>C16: In every reachable state of the UDP tunnel every reply that was sent went to the client
  its socket was dialled for, and every datagram being written goes out on a socket of its own
  client: sessions are never mixed up.\<close>

theorem udp_sessions_not_mixed:
  assumes "(udp_step idle)\<^sup>*\<^sup>* (NewUDP b) u"
  shows "((s, k) \<in> set (ut_replies u) \<longrightarrow> ut_dialled u s = Some k) \<and>
    (ut_fwd u t = Some f \<and> f_pc f = At_Write s \<longrightarrow> ut_dialled u s = Some (f_key f)) \<and>
    (ut_sess u k = Some s \<longrightarrow> ut_dialled u s = Some k)"
proof -
  have o: "owned u" using udp_inv_reach[OF assms] by (rule udp_inv_owned)
  then have "(s, k) \<in> set (ut_replies u) \<Longrightarrow> ut_dialled u s = Some k" by (simp add: owned_def)
  with owned_fwd[OF o, of t f s] owned_sess[OF o, of k s] show ?thesis by auto
qed

definition one_lb :: lb where
  "one_lb = NewFromConfig [''b:1''] [] ''round_robin''"

definition one_session :: udp_sys where
  "one_session = first_sent 0 ''c:9'' ''hi'' (receive 0 ''c:9'' ''hi'' (NewUDP one_lb))"

lemma one_lb_next: "fst (lb_Next one_lb) \<noteq> ''''"
  by code_simp

lemma one_session_reached: "(udp_step idle)\<^sup>*\<^sup>* (NewUDP one_lb) one_session"
proof -
  let ?r = "receive 0 ''c:9'' ''hi'' (NewUDP one_lb)"
  have step: "udp_step idle (NewUDP one_lb) ?r" by (rule us_receive) (simp add: NewUDP_def)
  have run: "run_fwd 0 7 ?r = one_session"
    unfolding one_session_def
    by (rule first_datagram) (use one_lb_next in \<open>simp_all add: receive_def NewUDP_def\<close>)
  have "(udp_step idle)\<^sup>*\<^sup>* ?r (run_fwd 0 7 ?r)" by (rule forward_reach)
  from converse_rtranclp_into_rtranclp[of "udp_step idle", OF step this] show ?thesis unfolding run .
qed

lemma one_session_fields:
  "ut_sess one_session ''c:9'' = Some 0" "ut_pump one_session 0 = Some ''c:9''"
  "\<not> is_closed one_session 0" "ut_started one_session = [0]" "ut_fwd one_session 0 = None"
  "ut_sent one_session = [(0, ''hi'')]"
  by (simp_all add: one_session_def first_sent_def receive_def NewUDP_def is_closed_def Let_def)

theorem udp_sessions_not_mixed_witness: "ut_dialled one_session 0 = Some ''c:9''"
  using udp_sessions_not_mixed[OF one_session_reached, of 0 "''c:9''" 0 undefined] one_session_fields(1) by blast

text \<open>C17: No socket leaks and no pump is doubled: in every reachable state an open socket is either the
  registered session of its client or still private to the goroutine that dialled it, two running
  pumps of one client on open sockets are the same pump, and no pump was ever started twice.\<close>

theorem udp_no_leak:
  assumes "(udp_step idle)\<^sup>*\<^sup>* (NewUDP b) u"
  shows "(\<not> is_closed u s \<longrightarrow> (\<exists>k. ut_sess u k = Some s) \<or>
      (\<exists>t f. ut_fwd u t = Some f \<and> pc_private (f_pc f) = Some s)) \<and>
    (ut_pump u s = Some k \<and> ut_pump u s' = Some k \<and> \<not> is_closed u s \<and> \<not> is_closed u s' \<longrightarrow> s = s') \<and>
    distinct (ut_started u)"
proof -
  have inv: "udp_inv u" by (rule udp_inv_reach[OF assms])
  then have t: "table_inv u" and p: "distinct (ut_started u)" by (simp_all add: udp_inv_def pumps_inv_def)
  have "s = s'" if "ut_pump u s = Some k" "ut_pump u s' = Some k" "\<not> is_closed u s" "\<not> is_closed u s'"
    using pump_published[OF inv that(1,3)] pump_published[OF inv that(2,4)] by simp
  with table_invD(4)[OF t, of s] p show ?thesis by blast
qed

theorem udp_no_leak_witness:
  "(\<exists>k. ut_sess one_session k = Some 0) \<or>
   (\<exists>t f. ut_fwd one_session t = Some f \<and> pc_private (f_pc f) = Some 0)"
  using udp_no_leak[OF one_session_reached, of 0] one_session_fields(3) by blast




definition deaf_session :: udp_sys where
  "deaf_session = pump False True 0 one_session"


end
