(* ===== verification/Wizard.thy ===== *)
theory Wizard
  imports Config
begin

text \<open>
  \<^verbatim>\<open>cmd/centauri/wizard.go\<close>: the interactive wizard as a function from everything that can
  be read from the terminal to the configuration it writes. What it prints is left out.
  \<open>strconv.ParseFloat\<close>, the YAML encoder and the file system are parameters.
\<close>

section \<open>prompt\<close>

text \<open>\<open>ReadString('\n')\<close>: the line with its newline, or what is left at the end of the input.\<close>

definition read_line :: "string \<Rightarrow> string \<times> string" where
  "read_line s =
     (case index_byte (CHR 0x0A) s of
        None \<Rightarrow> (s, [])
      | Some i \<Rightarrow> (take (Suc i) s, drop (Suc i) s))"

definition prompt :: "string \<Rightarrow> string \<Rightarrow> string \<times> string" where
  "prompt defaultVal s =
     (let (line, rest) = read_line s; line = TrimSpace line
      in (if line = '''' then defaultVal else line, rest))"

lemma prompt_shrinks:
  assumes "prompt d s = (a, rest)"
  shows "length rest \<le> length s" "a \<noteq> d \<Longrightarrow> length rest < length s"
proof -
  have r: "rest = snd (read_line s)" and a: "a = (if TrimSpace (fst (read_line s)) = '''' then d
      else TrimSpace (fst (read_line s)))"
    using assms by (auto simp: prompt_def Let_def split: prod.splits if_splits)
  show "length rest \<le> length s" by (auto simp: r read_line_def split: option.split)
  assume "a \<noteq> d"
  then have "TrimSpace (fst (read_line s)) \<noteq> ''''" using a by auto
  then have "s \<noteq> []" by (auto simp: read_line_def)
  then show "length rest < length s" by (auto simp: r read_line_def index_byte_Some split: option.split)
qed

section \<open>The loop over backends\<close>

definition yes :: "string \<Rightarrow> bool" where
  "yes s \<longleftrightarrow> EqualFold s ''y''"

lemma not_yes_n: "\<not> yes ''n''"
  by (simp add: yes_def EqualFold_def ascii_lower_def)

function read_backends :: "string \<Rightarrow> star_system list \<times> string" where
  "read_backends s =
     (let (a, s1) = prompt ''localhost:3000'' s;
          (more, s2) = prompt ''n'' s1
      in if \<not> yes (TrimSpace more) then ([\<lparr>ss_Address = a, ss_Weight = 1\<rparr>], s2)
         else let (bs, s3) = read_backends s2 in (\<lparr>ss_Address = a, ss_Weight = 1\<rparr> # bs, s3))"
  by pat_completeness auto
termination
proof (relation "measure length")
  fix s p a s1 q more s2
  assume p: "p = prompt ''localhost:3000'' s" "(a, s1) = p" and q: "q = prompt ''n'' s1" "(more, s2) = q"
    and y: "\<not> \<not> yes (TrimSpace more)"
  have "TrimSpace ''n'' = ''n''"
    by (rule TrimSpace_id) (simp_all add: leading_space_def trailing_space_def spaces_def)
  with y not_yes_n have "more \<noteq> ''n''" by auto
  then have "length s2 < length s1" using prompt_shrinks(2)[of "''n''" s1 more s2] q by simp
  moreover have "length s1 \<le> length s" using prompt_shrinks(1)[of _ s a s1] p by simp
  ultimately show "(s2, s) \<in> measure length" by simp
qed simp

declare read_backends.simps [simp del]

section \<open>The sections of the wizard\<close>

text \<open>\<open>n, _ := strconv.Atoi(s)\<close>: on overflow Go still returns the nearest value.\<close>

definition atoi_or :: "int64 \<Rightarrow> string \<Rightarrow> int64" where
  "atoi_or d s = (let n = word_of_int (fst (Atoi s)) :: int64 in if sint n \<le> 0 then d else n)"

definition no_shield :: flux_shield_config where
  "no_shield = \<lparr>fc_RequestsPerSecond = Fin 0, fc_Burst = 0\<rparr>"

definition read_shield :: "(string \<Rightarrow> f64) \<Rightarrow> string \<Rightarrow> flux_shield_config \<times> string" where
  "read_shield parseFloat s =
     (let (enable, s1) = prompt ''n'' s
      in if \<not> yes enable then (no_shield, s1)
         else
           let (rpsStr, s2) = prompt ''100'' s1;
               (burstStr, s3) = prompt ''20'' s2;
               rps = parseFloat rpsStr
           in (\<lparr>fc_RequestsPerSecond = (if rps \<le> 0 then Fin 100 else rps),
                fc_Burst = atoi_or 20 burstStr\<rparr>, s3))"

definition no_tls :: tls_config where
  "no_tls = \<lparr>tls_Mode = '''', tls_Domain = '''', tls_CertFile = '''', tls_KeyFile = ''''\<rparr>"

definition read_tls :: "string \<Rightarrow> tls_config \<times> string" where
  "read_tls s =
     (let (enable, s1) = prompt ''n'' s
      in if \<not> yes enable then (no_tls, s1)
         else
           let (mode, s2) = prompt ''auto'' s1
           in if mode = ''auto'' then
                let (domain, s3) = prompt '''' s2
                in (no_tls\<lparr>tls_Mode := mode, tls_Domain := domain\<rparr>, s3)
              else if mode = ''manual'' then
                let (cert, s3) = prompt ''cert.pem'' s2; (key, s4) = prompt ''key.pem'' s3
                in (no_tls\<lparr>tls_Mode := mode, tls_CertFile := cert, tls_KeyFile := key\<rparr>, s4)
              else (no_tls\<lparr>tls_Mode := mode\<rparr>, s2))"

definition no_oracle :: oracle_config where
  "no_oracle =
     \<lparr>oc_Enabled = False, oc_APIKey = '''', oc_Model = '''', oc_IntervalSeconds = 0,
      oc_ThreatDetection = False, oc_ScalingAdvisor = False, oc_ErrorRateThreshold = Fin 0,
      oc_P95LatencyThreshold = Fin 0\<rparr>"

definition read_oracle :: "string \<Rightarrow> oracle_config \<times> string" where
  "read_oracle s =
     (let (enable, s1) = prompt ''n'' s
      in if \<not> yes enable then (no_oracle, s1)
         else
           let (key, s2) = prompt ''${ORACLE_API_KEY}'' s1;
               key = (if key = '''' then ''${ORACLE_API_KEY}'' else key);
               (intervalStr, s3) = prompt ''300'' s2
           in (\<lparr>oc_Enabled = True, oc_APIKey = key, oc_Model = ''claude-haiku-4-5-20251001'',
                oc_IntervalSeconds = atoi_or 300 intervalStr, oc_ThreatDetection = True,
                oc_ScalingAdvisor = True, oc_ErrorRateThreshold = fl (5 / 100),
                oc_P95LatencyThreshold = Fin 500\<rparr>, s3))"

text \<open>All the questions, in order, and the configuration that is encoded.\<close>

definition ask :: "(string \<Rightarrow> f64) \<Rightarrow> string \<Rightarrow> config" where
  "ask parseFloat s0 =
     (let (name, s1) = prompt ''web-app'' s0;
          (listen, s2) = prompt '':8080'' s1;
          (protocol, s3) = prompt ''http'' s2;
          (backends, s4) = read_backends s3;
          (algo, s5) = prompt ''round_robin'' s4;
          (shield, s6) = read_shield parseFloat s5;
          (tls, s7) = read_tls s6;
          (orc, s8) = read_oracle s7
      in \<lparr>cf_MissionControl = \<lparr>mc_Port = 8080, mc_Secret = ''change-me''\<rparr>,
          cf_JumpGates =
            [\<lparr>jg_Name = name, jg_Listen = listen, jg_Protocol = protocol, jg_OrbitalRouter = algo,
              jg_TLS = tls, jg_FluxShield = shield, jg_StarSystems = backends\<rparr>],
          cf_Metrics = \<lparr>mcf_Enabled = True, mcf_Port = 9090\<rparr>,
          cf_Oracle = orc\<rparr>)"

definition wizard ::
  "(string \<Rightarrow> f64) \<Rightarrow> (config \<Rightarrow> 'e + string) \<Rightarrow> (string \<Rightarrow> 'e option) \<Rightarrow> string \<Rightarrow> 'e option" where
  "wizard parseFloat marshal writeFile s =
     (case marshal (ask parseFloat s) of Inl e \<Rightarrow> Some e | Inr data \<Rightarrow> writeFile data)"

definition runWizard ::
  "(string \<Rightarrow> f64) \<Rightarrow> (config \<Rightarrow> 'e + string) \<Rightarrow> (string \<Rightarrow> string \<Rightarrow> 'e option) \<Rightarrow> string \<Rightarrow> 'e option" where
  "runWizard parseFloat marshal writeFile stdin = wizard parseFloat marshal (writeFile ''centauri.yml'') stdin"

section \<open>What it always writes\<close>

lemma prompt_nonempty: "d \<noteq> '''' \<Longrightarrow> fst (prompt d s) \<noteq> ''''"
  by (auto simp: prompt_def Let_def split: prod.split)

lemma atoi_or_pos: "0 < sint d \<Longrightarrow> 0 < sint (atoi_or d s)"
  by (simp add: atoi_or_def Let_def)

lemma read_backends_wf:
  "fst (read_backends s) \<noteq> [] \<and>
   (\<forall>b\<in>set (fst (read_backends s)). ss_Address b \<noteq> '''' \<and> ss_Weight b = 1)"
proof (induction s rule: read_backends.induct)
  case (1 s)
  obtain a s1 where a: "prompt ''localhost:3000'' s = (a, s1)" by fastforce
  obtain more s2 where m: "prompt ''n'' s1 = (more, s2)" by fastforce
  have "a \<noteq> ''''" using prompt_nonempty[of "''localhost:3000''" s] a by simp
  with 1[OF a[symmetric] refl m[symmetric] refl] show ?case
    by (subst (1 2) read_backends.simps) (auto simp: a m split: prod.splits)
qed

lemma read_shield_wf:
  "fst (read_shield pf s) = no_shield \<or>
   0 < sint (fc_Burst (fst (read_shield pf s))) \<and>
     \<not> fc_RequestsPerSecond (fst (read_shield pf s)) \<le> 0"
  by (auto simp: read_shield_def Let_def atoi_or_pos split: prod.splits)

lemma read_oracle_wf:
  "fst (read_oracle s) = no_oracle \<or>
   oc_Enabled (fst (read_oracle s)) \<and> oc_APIKey (fst (read_oracle s)) \<noteq> '''' \<and>
     0 < sint (oc_IntervalSeconds (fst (read_oracle s)))"
  by (auto simp: read_oracle_def Let_def atoi_or_pos split: prod.splits)

definition gate_wf :: "jump_gate \<Rightarrow> bool" where
  "gate_wf g \<longleftrightarrow> jg_Name g \<noteq> '''' \<and> jg_Listen g \<noteq> '''' \<and> jg_Protocol g \<noteq> '''' \<and>
     jg_OrbitalRouter g \<noteq> '''' \<and> jg_StarSystems g \<noteq> [] \<and>
     (\<forall>b\<in>set (jg_StarSystems g). ss_Address b \<noteq> '''' \<and> ss_Weight b = 1) \<and>
     (jg_FluxShield g = no_shield \<or>
        0 < sint (fc_Burst (jg_FluxShield g)) \<and> \<not> fc_RequestsPerSecond (jg_FluxShield g) \<le> 0)"

definition config_wf :: "config \<Rightarrow> bool" where
  "config_wf c \<longleftrightarrow> (\<exists>g. cf_JumpGates c = [g] \<and> gate_wf g) \<and>
     (cf_Oracle c = no_oracle \<or>
        oc_Enabled (cf_Oracle c) \<and> oc_APIKey (cf_Oracle c) \<noteq> '''' \<and> 0 < sint (oc_IntervalSeconds (cf_Oracle c)))"

lemma ask_wf: "config_wf (ask pf s)"
proof -
  obtain name s1 where q1: "prompt ''web-app'' s = (name, s1)" by fastforce
  obtain listen s2 where q2: "prompt '':8080'' s1 = (listen, s2)" by fastforce
  obtain protocol s3 where q3: "prompt ''http'' s2 = (protocol, s3)" by fastforce
  obtain bs s4 where q4: "read_backends s3 = (bs, s4)" by fastforce
  obtain algo s5 where q5: "prompt ''round_robin'' s4 = (algo, s5)" by fastforce
  obtain sh s6 where q6: "read_shield pf s5 = (sh, s6)" by fastforce
  obtain tl s7 where q7: "read_tls s6 = (tl, s7)" by fastforce
  obtain orc s8 where q8: "read_oracle s7 = (orc, s8)" by fastforce
  have "name \<noteq> ''''" "listen \<noteq> ''''" "protocol \<noteq> ''''" "algo \<noteq> ''''"
    using prompt_nonempty[of "''web-app''" s] prompt_nonempty[of "'':8080''" s1]
      prompt_nonempty[of "''http''" s2] prompt_nonempty[of "''round_robin''" s4] q1 q2 q3 q5 by simp_all
  with read_backends_wf[of s3] read_shield_wf[of pf s5] read_oracle_wf[of s7] show ?thesis
    by (simp add: ask_def q1 q2 q3 q4 q5 q6 q7 q8 config_wf_def gate_wf_def)
qed

section \<open>Scripts\<close>

text \<open>An answer typed as one line is read back as it is.\<close>

definition clean :: "string \<Rightarrow> bool" where
  "clean a \<longleftrightarrow> a \<noteq> '''' \<and> CHR 0x0A \<notin> set a \<and> TrimSpace (a @ [CHR 0x0A]) = a"

definition typed :: "string list \<Rightarrow> string" where
  "typed as = concat (map (\<lambda>a. a @ [CHR 0x0A]) as)"

lemma prompt_typed: "clean a \<Longrightarrow> prompt d (a @ CHR 0x0A # rest) = (a, rest)"
  by (simp add: prompt_def read_line_def index_byte_append clean_def)

lemma typed_Cons: "typed (a # as) = a @ CHR 0x0A # typed as"
  by (simp add: typed_def)

fun backend_answers :: "string list \<Rightarrow> string list" where
  "backend_answers [] = []"
| "backend_answers [a] = [a, ''n'']"
| "backend_answers (a # as) = a # ''y'' # backend_answers as"

lemma clean_yn: "clean ''y''" "clean ''n''" "yes (TrimSpace ''y'')" "\<not> yes (TrimSpace ''n'')"
  by code_simp+

lemmas prompt_yn = prompt_typed[OF clean_yn(1), simplified] prompt_typed[OF clean_yn(2), simplified]

lemma read_backends_typed:
  assumes "as \<noteq> []" "\<forall>a\<in>set as. clean a"
  shows "read_backends (typed (backend_answers as @ others)) =
    (map (\<lambda>a. \<lparr>ss_Address = a, ss_Weight = 1\<rparr>) as, typed others)"
  using assms
proof (induction as rule: backend_answers.induct)
  case (2 a)
  then show ?case
    by (subst read_backends.simps) (simp add: typed_Cons prompt_typed clean_yn prompt_yn)
next
  case (3 a b bs)
  then show ?case
    by (subst read_backends.simps) (simp add: typed_Cons prompt_typed clean_yn prompt_yn)
qed simp

end
