(* ===== verification/Boot.thy ===== *)
theory Boot
  imports Startup
begin

text \<open>
  \<open>main\<close> of \<^verbatim>\<open>cmd/centauri/main.go\<close> call by call, with the functions that open things: \<open>OpenStore\<close> and
  \<open>Init\<close> of metrics/store.go, \<open>New\<close> of logger/stellar.go, \<open>Watch\<close> of config/watcher.go, \<open>AutoCert\<close>
  and \<open>ManualCert\<close> of tls/stellar.go. What is printed is left out. \<open>boot_script\<close> is the list of the calls a
  configuration asks for, and the program is shown to be that list, cut at the first failure.
\<close>

section \<open>Opening\<close>

definition OpenStore :: "os \<Rightarrow> string \<Rightarrow> (string + unit) io" where
  "OpenStore os path =
     and_then (try_call os (OS_MkdirAll (path_Dir path))) (\<lambda>_.
     and_then (try_call os (OS_SqlOpen path)) (\<lambda>_.
     do_call (OS_MaxOpenConns 1)))"

definition Store_Init :: "os \<Rightarrow> (string + unit) io" where
  "Store_Init os =
     and_then (try_call os (OS_Exec Create_request_stats)) (\<lambda>_.
     and_then (try_call os (OS_Exec Create_events)) (\<lambda>_.
     try_call os (OS_Exec Create_threat_signals)))"

definition Store_Close :: "(string + unit) io" where
  "Store_Close = do_call OS_CloseDb"

definition sl_New :: "os \<Rightarrow> string \<Rightarrow> (string + unit) io" where
  "sl_New os path =
     and_then (try_call os (OS_MkdirAll (path_Dir path))) (\<lambda>_.
     try_call os (OS_OpenFile path))"

definition config_Watch :: "os \<Rightarrow> string \<Rightarrow> (string + unit) io" where
  "config_Watch os path =
     and_then (try_call os OS_NewWatcher) (\<lambda>_.
     and_then (on_error OS_CloseWatcher (try_call os (OS_AddWatch path))) (\<lambda>_.
     do_call (OS_Go (T_Watch path))))"

text \<open>The TLS settings of a server: where its certificates come from.\<close>

record acme_manager =
  ac_HostPolicy :: "string list"
  ac_Cache :: string

definition AutoCert :: "string \<Rightarrow> string \<Rightarrow> (string + acme_manager) io" where
  "AutoCert domain cacheDir =
     and_then (do_call (OS_Go (T_Challenge domain))) (\<lambda>_.
     io_ok \<lparr>ac_HostPolicy = [domain], ac_Cache = cacheDir\<rparr>)"

definition ManualCert :: "(string \<Rightarrow> string \<Rightarrow> 'e + 'cert) \<Rightarrow> string \<Rightarrow> string \<Rightarrow> 'e + 'cert list" where
  "ManualCert loadPair certFile keyFile =
     (case loadPair certFile keyFile of Inl e \<Rightarrow> Inl e | Inr cert \<Rightarrow> Inr [cert])"

section \<open>Metrics\<close>

definition metrics_Init :: "(string + unit) io" where
  "metrics_Init = do_call OS_Register"

definition oracle_Start :: "oracle_state option \<Rightarrow> (string + unit) io" where
  "oracle_Start ora = (case ora of None \<Rightarrow> io_ok () | Some o' \<Rightarrow> do_call (OS_Go T_Oracle))"

definition boot_metrics :: "os \<Rightarrow> config \<Rightarrow> (string + metrics_service option) io" where
  "boot_metrics os cfg =
     (if \<not> mcf_Enabled (cf_Metrics cfg) then io_ok None
      else
        and_then metrics_Init (\<lambda>_.
        and_then (fatal (OpenStore os ''data/metrics.db'')) (\<lambda>_.
        and_then (fatal (Store_Init os)) (\<lambda>_.
        let ora = oracle_New (cf_Oracle cfg) (gateNames cfg); port = mcf_Port (cf_Metrics cfg)
        in and_then (oracle_Start ora) (\<lambda>_.
           and_then (do_call (OS_Go (T_Metrics port))) (\<lambda>_.
           and_then (do_call (OS_Go T_Flush)) (\<lambda>_.
           io_ok (Some \<lparr>sv_Port = port, sv_Oracle = ora\<rparr>))))))))"

section \<open>Gates\<close>

definition serve :: "string \<Rightarrow> tls_config \<Rightarrow> (string + unit) io" where
  "serve listen tls =
     (case tls_of tls of
        TLS_Auto domain \<Rightarrow>
          and_then (AutoCert domain ''.certs'') (\<lambda>_. do_call (OS_Go (T_Serve listen (TLS_Auto domain))))
      | TLS_Manual certFile keyFile \<Rightarrow> do_call (OS_Go (T_Serve listen (TLS_Manual certFile keyFile)))
      | TLS_None \<Rightarrow> do_call (OS_Go (T_Serve listen TLS_None)))"

definition boot_http :: "os \<Rightarrow> jump_gate \<Rightarrow> (string + unit) io" where
  "boot_http os g =
     and_then (fatal (sl_New os (''logs/'' @ jg_Name g @ ''.log''))) (\<lambda>_.
     and_then (if 0 < fc_RequestsPerSecond (jg_FluxShield g) then do_call (OS_Go T_Cleanup) else io_ok ()) (\<lambda>_.
     serve (jg_Listen g) (jg_TLS g)))"

definition boot_gate :: "os \<Rightarrow> bool \<Rightarrow> jump_gate \<Rightarrow> (string + gate) io" where
  "boot_gate os store g =
     and_then (do_call (OS_Go (T_Health (jg_Name g)))) (\<lambda>_.
     and_then (if jg_Protocol g = ''http'' then boot_http os g else io_ok ()) (\<lambda>_.
     and_then (if jg_Protocol g = ''tcp'' then do_call (OS_Go (T_TCP (jg_Listen g))) else io_ok ()) (\<lambda>_.
     and_then (if jg_Protocol g = ''udp'' then do_call (OS_Go (T_UDP (jg_Listen g))) else io_ok ()) (\<lambda>_.
     io_ok (start_gate store g)))))"

fun boot_gates :: "os \<Rightarrow> bool \<Rightarrow> jump_gate list \<Rightarrow> (string + gate list) io" where
  "boot_gates os store [] = io_ok []"
| "boot_gates os store (g # gs) =
     and_then (boot_gate os store g) (\<lambda>gate. and_then (boot_gates os store gs) (\<lambda>rest. io_ok (gate # rest)))"

section \<open>The program\<close>

text \<open>From a loaded configuration to the signal that ends the program, with the deferred \<open>Close\<close>.\<close>

definition boot :: "os \<Rightarrow> config \<Rightarrow> (string + program) io" where
  "boot os cfg =
     and_then (boot_metrics os cfg) (\<lambda>service.
     and_then (boot_gates os (service \<noteq> None) (cf_JumpGates cfg)) (\<lambda>gates.
     and_then (fatal (config_Watch os ''centauri.yml'')) (\<lambda>_.
     and_then (do_call OS_Notify) (\<lambda>_.
     and_then (do_call OS_Wait) (\<lambda>_.
     and_then (if service \<noteq> None then Store_Close else io_ok ()) (\<lambda>_.
     io_ok \<lparr>pg_service = service, pg_gates = gates, pg_registry = gate_registry (cf_JumpGates cfg)\<rparr>))))))"

definition load_config :: "(string \<Rightarrow> string + config) \<Rightarrow> string \<Rightarrow> (string + config) io" where
  "load_config load path =
     do { done \<leftarrow> do_call (OS_ReadFile path); State_Monad.return (load path) }"

text \<open>\<open>init\<close> as the first argument runs the wizard instead; what it ends with (\<open>runWizard\<close>, in \<open>Wizard\<close>) is the argument \<open>wizard_answer\<close>.\<close>

definition main :: "os \<Rightarrow> (string \<Rightarrow> string + config) \<Rightarrow> string option \<Rightarrow> string list \<Rightarrow> (string + program option) io" where
  "main os load wizard_answer args =
     (if 1 < length args \<and> args ! 1 = ''init''
      then (case wizard_answer of
              None \<Rightarrow> io_ok None
            | Some e \<Rightarrow> fatal (State_Monad.return (Inl e)))
      else and_then (fatal (load_config load ''centauri.yml'')) (\<lambda>cfg.
           and_then (boot os cfg) (\<lambda>p. io_ok (Some p))))"

section \<open>The calls a configuration asks for\<close>

definition metrics_script :: "config \<Rightarrow> os_call list" where
  "metrics_script cfg =
     (if \<not> mcf_Enabled (cf_Metrics cfg) then []
      else [OS_Register, OS_MkdirAll ''data'', OS_SqlOpen ''data/metrics.db'', OS_MaxOpenConns 1,
            OS_Exec Create_request_stats, OS_Exec Create_events, OS_Exec Create_threat_signals] @
           (if oracle_New (cf_Oracle cfg) (gateNames cfg) = None then [] else [OS_Go T_Oracle]) @
           [OS_Go (T_Metrics (mcf_Port (cf_Metrics cfg))), OS_Go T_Flush])"

definition serve_script :: "jump_gate \<Rightarrow> os_call list" where
  "serve_script g =
     (case tls_of (jg_TLS g) of TLS_Auto domain \<Rightarrow> [OS_Go (T_Challenge domain)] | _ \<Rightarrow> []) @
     [OS_Go (T_Serve (jg_Listen g) (tls_of (jg_TLS g)))]"

definition gate_script :: "jump_gate \<Rightarrow> os_call list" where
  "gate_script g =
     [OS_Go (T_Health (jg_Name g))] @
     (if jg_Protocol g = ''http'' then
        [OS_MkdirAll (path_Dir (''logs/'' @ jg_Name g @ ''.log'')), OS_OpenFile (''logs/'' @ jg_Name g @ ''.log'')] @
        (if 0 < fc_RequestsPerSecond (jg_FluxShield g) then [OS_Go T_Cleanup] else []) @ serve_script g
      else []) @
     (if jg_Protocol g = ''tcp'' then [OS_Go (T_TCP (jg_Listen g))] else []) @
     (if jg_Protocol g = ''udp'' then [OS_Go (T_UDP (jg_Listen g))] else [])"

definition boot_script :: "config \<Rightarrow> os_call list" where
  "boot_script cfg =
     metrics_script cfg @ concat (map gate_script (cf_JumpGates cfg)) @
     [OS_NewWatcher, OS_AddWatch ''centauri.yml'', OS_Go (T_Watch ''centauri.yml''), OS_Notify, OS_Wait] @
     (if mcf_Enabled (cf_Metrics cfg) then [OS_CloseDb] else [])"

definition booted_service :: "config \<Rightarrow> metrics_service option" where
  "booted_service cfg =
     (if mcf_Enabled (cf_Metrics cfg)
      then Some \<lparr>sv_Port = mcf_Port (cf_Metrics cfg), sv_Oracle = oracle_New (cf_Oracle cfg) (gateNames cfg)\<rparr>
      else None)"

definition booted :: "config \<Rightarrow> program" where
  "booted cfg =
     \<lparr>pg_service = booted_service cfg,
      pg_gates = map (start_gate (mcf_Enabled (cf_Metrics cfg))) (cf_JumpGates cfg),
      pg_registry = gate_registry (cf_JumpGates cfg)\<rparr>"

section \<open>The program runs these calls\<close>

lemma script_OpenStore [script]:
  "scripted os [] (OpenStore os path) [OS_MkdirAll (path_Dir path), OS_SqlOpen path, OS_MaxOpenConns 1] ()"
  unfolding OpenStore_def by (rule scripted_then script | simp)+

lemma script_Store_Init [script]:
  "scripted os [] (Store_Init os)
     [OS_Exec Create_request_stats, OS_Exec Create_events, OS_Exec Create_threat_signals] ()"
  unfolding Store_Init_def by (rule scripted_then script | simp)+

lemma script_sl_New [script]:
  "scripted os [] (sl_New os path) [OS_MkdirAll (path_Dir path), OS_OpenFile path] ()"
  unfolding sl_New_def by (rule scripted_then script | simp)+

lemma script_Watch [script]:
  "scripted os [] (config_Watch os path) [OS_NewWatcher, OS_AddWatch path, OS_Go (T_Watch path)] ()"
  unfolding config_Watch_def by (rule scripted_then script | simp)+

lemma script_if [script]:
  "scripted os fin m cs () \<Longrightarrow> scripted os fin (if b then m else io_ok ()) (if b then cs else []) ()"
  by (simp add: scripted_ok)

lemma script_Start [script]:
  "scripted os fin (oracle_Start ora) (if ora = None then [] else [OS_Go T_Oracle]) ()"
  by (cases ora) (simp_all add: oracle_Start_def scripted_ok scripted_do)

lemma script_AutoCert [script]:
  "scripted os fin (AutoCert domain dir) [OS_Go (T_Challenge domain)] \<lparr>ac_HostPolicy = [domain], ac_Cache = dir\<rparr>"
  unfolding AutoCert_def by (rule scripted_then script | simp)+

lemma script_serve [script]: "scripted os fin (serve (jg_Listen g) (jg_TLS g)) (serve_script g) ()"
proof (cases "tls_of (jg_TLS g)")
  case (TLS_Auto domain)
  then show ?thesis unfolding serve_def serve_script_def by simp (rule scripted_then script | simp)+
qed (simp_all add: serve_def serve_script_def scripted_do)

lemma script_http [script]:
  "scripted os [OS_Exit] (boot_http os g)
     ([OS_MkdirAll (path_Dir (''logs/'' @ jg_Name g @ ''.log'')), OS_OpenFile (''logs/'' @ jg_Name g @ ''.log'')] @
      (if 0 < fc_RequestsPerSecond (jg_FluxShield g) then [OS_Go T_Cleanup] else []) @ serve_script g) ()"
  unfolding boot_http_def by (rule scripted_then script refl fallible.simps | simp only: fallible.simps not_False_eq_True)+

lemma script_gate [script]:
  "scripted os [OS_Exit] (boot_gate os store g) (gate_script g) (start_gate store g)"
  unfolding boot_gate_def gate_script_def
  by (rule scripted_then script refl | simp only: fallible.simps not_False_eq_True append_Nil2)+

lemma script_gates [script]:
  "scripted os [OS_Exit] (boot_gates os store gs) (concat (map gate_script gs)) (map (start_gate store) gs)"
proof (induction gs)
  case (Cons g gs)
  show ?case
    unfolding boot_gates.simps list.map concat.simps
    by (rule scripted_then script Cons.IH refl | simp only: append_Nil2)+
qed (simp add: scripted_ok)

lemma script_metrics [script]:
  "scripted os [OS_Exit] (boot_metrics os cfg) (metrics_script cfg) (booted_service cfg)"
proof (cases "mcf_Enabled (cf_Metrics cfg)")
  case True
  have "scripted os [OS_Exit]
      (and_then metrics_Init (\<lambda>_. and_then (fatal (OpenStore os ''data/metrics.db'')) (\<lambda>_. and_then (fatal (Store_Init os)) (\<lambda>_.
         and_then (oracle_Start ora) (\<lambda>_. and_then (do_call (OS_Go (T_Metrics port))) (\<lambda>_.
         and_then (do_call (OS_Go T_Flush)) (\<lambda>_. io_ok (Some \<lparr>sv_Port = port, sv_Oracle = ora\<rparr>))))))))
      ([OS_Register, OS_MkdirAll ''data'', OS_SqlOpen ''data/metrics.db'', OS_MaxOpenConns 1,
        OS_Exec Create_request_stats, OS_Exec Create_events, OS_Exec Create_threat_signals] @
       (if ora = None then [] else [OS_Go T_Oracle]) @ [OS_Go (T_Metrics port), OS_Go T_Flush])
      (Some \<lparr>sv_Port = port, sv_Oracle = ora\<rparr>)" for ora port
    unfolding metrics_Init_def
    by (rule scripted_then script refl | simp add: path_Dir_db)+
  with True show ?thesis by (simp add: boot_metrics_def metrics_script_def booted_service_def Let_def)
qed (simp add: boot_metrics_def metrics_script_def booted_service_def scripted_ok)

lemma script_boot: "scripted os [OS_Exit] (boot os cfg) (boot_script cfg) (booted cfg)"
proof -
  have "scripted os [OS_Exit] (boot os cfg)
      (metrics_script cfg @ concat (map gate_script (cf_JumpGates cfg)) @
       ([OS_NewWatcher, OS_AddWatch ''centauri.yml'', OS_Go (T_Watch ''centauri.yml'')] @ [OS_Notify] @ [OS_Wait] @
        (if booted_service cfg \<noteq> None then [OS_CloseDb] else []) @ []))
      \<lparr>pg_service = booted_service cfg, pg_gates = map (start_gate (booted_service cfg \<noteq> None)) (cf_JumpGates cfg),
       pg_registry = gate_registry (cf_JumpGates cfg)\<rparr>"
    unfolding boot_def Store_Close_def
    by (rule scripted_then script refl | simp only: fallible.simps not_False_eq_True)+
  moreover have "booted_service cfg \<noteq> None \<longleftrightarrow> mcf_Enabled (cf_Metrics cfg)" by (simp add: booted_service_def)
  ultimately show ?thesis by (simp add: boot_script_def booted_def)
qed

text \<open>The whole program, from the command line.\<close>

lemma main_runs:
  assumes "\<not> (1 < length args \<and> args ! 1 = ''init'')"
  shows "run_state (main os load wiz args) [] =
    (case load ''centauri.yml'' of
       Inl e \<Rightarrow> (Inl e, [OS_ReadFile ''centauri.yml'', OS_Exit])
     | Inr cfg \<Rightarrow>
        (case run_calls os (boot_script cfg) [OS_ReadFile ''centauri.yml''] of
           (None, tr) \<Rightarrow> (Inr (Some (booted cfg)), tr)
         | (Some e, tr) \<Rightarrow> (Inl e, tr @ undo (last tr) @ [OS_Exit])))"
  using assms script_boot[of os]
  by (auto simp: main_def load_config_def and_then_def fatal_def on_error_def do_call_def scripted_def io_ok_def
      split: sum.split option.split prod.split)

end
