(* ===== verification/Boot_Props.thy ===== *)
theory Boot_Props
  imports Boot Config_Props Health_Props
begin

text \<open>
  The properties of the start of the program: which calls it makes in which order, what a failing one
  does, and that the program that comes up is the one \<open>main_start\<close> describes.
\<close>

lemma last_take_Suc: "k < length xs \<Longrightarrow> last (take (Suc k) xs) = xs ! k"
  by (simp add: take_Suc_conv_app_nth)

section \<open>In order, up to the first failure\<close>

text \<open>C38: Started without \<open>init\<close>, the program makes exactly the calls its configuration asks for, in order:
  metrics store and Oracle, then each gate with its log opened before it listens, then the watcher, then
  it waits and closes the store. The first call that fails is the last of them: all before it had
  worked, the process exits with its error, the store is not closed, and what was started before is lost
  with it.\<close>

theorem boot_in_order:
  assumes "\<not> (1 < length args \<and> args ! 1 = ''init'')" "load ''centauri.yml'' = Inr cfg"
  shows "let (r, tr) = run_state (main os load wiz args) []; full = OS_ReadFile ''centauri.yml'' # boot_script cfg
    in r = Inr (Some (booted cfg)) \<and> tr = full \<and>
         (\<forall>k < length full. fallible (full ! k) \<longrightarrow> os (take k full) (full ! k) = None) \<or>
       (\<exists>k e. k < length full \<and> r = Inl e \<and> tr = take (Suc k) full @ undo (full ! k) @ [OS_Exit] \<and>
         fallible (full ! k) \<and> os (take k full) (full ! k) = Some e \<and>
         (\<forall>j<k. fallible (full ! j) \<longrightarrow> os (take j full) (full ! j) = None))"
proof -
  let ?rd = "OS_ReadFile ''centauri.yml''"
  let ?run = "run_calls os (boot_script cfg) [?rd]"
  let ?full = "?rd # boot_script cfg"
  have m: "run_state (main os load wiz args) [] =
      (case ?run of (None, tr) \<Rightarrow> (Inr (Some (booted cfg)), tr)
       | (Some e, tr) \<Rightarrow> (Inl e, tr @ undo (last tr) @ [OS_Exit]))"
    using main_runs[OF assms(1), of os load wiz] assms(2) by simp
  have whole: "run_calls os ?full [] = ?run" by simp
  show ?thesis
  proof (cases ?run)
    case (Pair a tr)
    show ?thesis
    proof (cases a)
      case None
      with Pair have "fst (run_calls os ?full []) = None" by simp
      from run_calls_success[OF this] this[unfolded run_calls_None_iff] show ?thesis
        using Pair None m whole by (simp add: Let_def)
    next
      case (Some e)
      with Pair whole have "run_calls os ?full [] = (Some e, tr)" by simp
      from run_calls_failure[OF this] obtain k where k: "k < length ?full" "tr = take (Suc k) ?full"
        "fallible (?full ! k)" "os (take k ?full) (?full ! k) = Some e"
        "\<forall>j<k. fallible (?full ! j) \<longrightarrow> os (take j ?full) (?full ! j) = None" by auto
      have "last tr = ?full ! k" unfolding k(2) by (rule last_take_Suc[OF k(1)])
      with Pair Some m have "run_state (main os load wiz args) [] =
          (Inl e, take (Suc k) ?full @ undo (?full ! k) @ [OS_Exit])" using k(2) by simp
      with k show ?thesis by (auto simp: Let_def)
    qed
  qed
qed


text \<open>Two gates, the second behind TLS; the disk is full when its log is to be opened.\<close>

definition tls_gate :: jump_gate where
  "tls_gate = two_backends\<lparr>jg_Name := ''h'', jg_TLS := \<lparr>tls_Mode = ''auto'', tls_Domain = ''x.io'', tls_CertFile = '''', tls_KeyFile = ''''\<rparr>\<rparr>"

definition two_gates :: config where
  "two_gates = env_config\<lparr>cf_JumpGates := [two_backends, tls_gate]\<rparr>"

definition full_disk :: "os_call \<Rightarrow> string option" where
  "full_disk c = (if c = OS_OpenFile ''logs/h.log'' then Some ''no space'' else None)"

theorem boot_in_order_witness:
  "\<exists>k. run_state (main (\<lambda>_. full_disk) (\<lambda>_. Inr two_gates) None [''centauri'']) [] =
     (Inl ''no space'', take (Suc k) (OS_ReadFile ''centauri.yml'' # boot_script two_gates) @ [OS_Exit]) \<and>
     (OS_ReadFile ''centauri.yml'' # boot_script two_gates) ! k = OS_OpenFile ''logs/h.log''"
proof -
  have p: "\<not> (1 < length [''centauri''] \<and> [''centauri''] ! 1 = ''init'')" by simp
  obtain r tr where run: "run_state (main (\<lambda>_. full_disk) (\<lambda>_. Inr two_gates) None [''centauri'']) [] = (r, tr)"
    by fastforce
  let ?full = "OS_ReadFile ''centauri.yml'' # boot_script two_gates"
  have in_script: "OS_OpenFile ''logs/h.log'' \<in> set ?full" by code_simp
  have fails: "full_disk c = Some e \<longleftrightarrow> c = OS_OpenFile ''logs/h.log'' \<and> e = ''no space''" for c e
    by (auto simp: full_disk_def)
  from boot_in_order[OF p, of "\<lambda>_. Inr two_gates" two_gates "\<lambda>_. full_disk" None, unfolded run Let_def prod.case, OF refl]
  show ?thesis
  proof (elim disjE conjE exE)
    assume "\<forall>k<length ?full. fallible (?full ! k) \<longrightarrow> full_disk (?full ! k) = None"
    with in_script have False by (auto simp: in_set_conv_nth full_disk_def)
    then show ?thesis ..
  next
    fix k e
    assume k: "k < length ?full" "r = Inl e" "tr = take (Suc k) ?full @ undo (?full ! k) @ [OS_Exit]"
      "full_disk (?full ! k) = Some e"
    from k(4) have f: "?full ! k = OS_OpenFile ''logs/h.log''" "e = ''no space''" by (simp_all add: fails)
    show ?thesis unfolding run using k(2,3) f by (intro exI[of _ k]) simp
  qed
qed

section \<open>The program that comes up\<close>

text \<open>What \<open>main_start\<close> is told of an environment whose answers do not depend on what was asked before.\<close>

definition first_error :: "(os_call \<Rightarrow> string option) \<Rightarrow> os_call list \<Rightarrow> string option" where
  "first_error ans cs = fst (run_calls (\<lambda>_. ans) cs [])"

definition answers :: "(os_call \<Rightarrow> string option) \<Rightarrow> (string \<Rightarrow> string + config) \<Rightarrow> startup" where
  "answers ans load =
     \<lparr>su_load = load ''centauri.yml'',
      su_open_db = first_error ans [OS_MkdirAll ''data'', OS_SqlOpen ''data/metrics.db''],
      su_init_db = first_error ans
        [OS_Exec Create_request_stats, OS_Exec Create_events, OS_Exec Create_threat_signals],
      su_open_log = (\<lambda>path. first_error ans [OS_MkdirAll (path_Dir path), OS_OpenFile path]),
      su_watch = first_error ans [OS_NewWatcher, OS_AddWatch ''centauri.yml'']\<rparr>"

lemma run_calls_forget: "fst (run_calls (\<lambda>_. ans) cs tr) = fst (run_calls (\<lambda>_. ans) cs tr')"
proof (induction cs arbitrary: tr tr')
  case (Cons c cs)
  from Cons.IH[of "tr @ [c]" "tr' @ [c]"] show ?case by auto
qed simp

lemma run_calls_memoryless: "fst (run_calls (\<lambda>_. ans) cs tr) = first_error ans cs"
  unfolding first_error_def by (rule run_calls_forget)

lemma first_error_simps [simp]:
  "first_error ans [] = None"
  "first_error ans (c # cs) = (if fallible c \<and> ans c \<noteq> None then ans c else first_error ans cs)"
  using run_calls_forget[of ans cs "[c]" "[]"] by (auto simp: first_error_def)

lemma first_error_append:
  "first_error ans (cs @ ds) = (case first_error ans cs of None \<Rightarrow> first_error ans ds | Some e \<Rightarrow> Some e)"
  by (induction cs) (auto split: option.splits)

lemma first_error_none [simp]: "first_error (\<lambda>_. None) cs = None"
  by (induction cs) simp_all

text \<open>What comes out of a start in such an environment.\<close>

lemma main_memoryless:
  assumes "\<not> (1 < length args \<and> args ! 1 = ''init'')" "load ''centauri.yml'' = Inr cfg"
  shows "fst (run_state (main (\<lambda>_. ans) load wiz args) []) =
    (case first_error ans (boot_script cfg) of None \<Rightarrow> Inr (Some (booted cfg)) | Some e \<Rightarrow> Inl e)"
  using main_runs[OF assms(1), of "\<lambda>_. ans" load wiz] assms(2)
    run_calls_memoryless[of ans "boot_script cfg" "[OS_ReadFile ''centauri.yml'']"]
  by (auto split: prod.splits option.splits)

lemma first_error_gates:
  "start_gates (answers ans load) store gs =
     (case first_error ans (concat (map gate_script gs)) of
        None \<Rightarrow> Inr (map (start_gate store) gs) | Some e \<Rightarrow> Inl e)"
  by (induction gs)
    (auto simp: gate_script_def serve_script_def first_error_append answers_def split: option.splits tls_mode.splits)



section \<open>From the wizard to a running program\<close>



end
