(* ===== verification/Spec2Isabelle.thy ===== *)
theory Spec2Isabelle
  imports Life_Props Record_Props Balancing_Props Health_Props Tunnel_Props Serving_Props Observe_Props Config_Props Boot_Props
begin

text \<open>
  Proxy Centauri, a reverse proxy and TCP/UDP tunnel written in Go: a model of its code under
  \<open>src/internal\<close> and \<open>src/cmd/centauri\<close>, and the theorems that say what it does.

  The program. A configuration file lists gates. Each gate listens on an address, in the protocol
  \<open>http\<close>, \<open>tcp\<close> or \<open>udp\<close>, and spreads what arrives over a list of backends with a balancer; a health
  checker per gate pings the backends and pushes the list of the live ones into the balancer; saving
  the file reloads the lists. An HTTP request runs through the chain rate limiter, access log,
  metrics, reverse proxy. A ticker turns the metrics into snapshots and stores them, and another one
  (the Oracle) turns the snapshots into rates, asks an external model whether something is wrong and
  stores its answer as a signal, which an HTTP endpoint lists and resolves. A wizard writes a first
  configuration file.

  \<^bold>\<open>Theories and the code they model.\<close>

  Shared ground: \<open>Prelude\<close> (machine integers as 64-bit words, repeated calls, scans for a maximum, the
  collections of simplification rules), \<open>Go_Float\<close> (float64 as rationals with rounding to nearest even,
  subnormals, infinities and NaN; signed zeros are identified), \<open>Go_Strings\<close> (the functions of \<open>strings\<close>,
  \<open>strconv\<close> and \<open>net\<close> the code calls, on ASCII), \<open>Http_Types\<close> (requests, the calls a handler makes on its
  response writer, what of them reaches the wire), \<open>Go_Json\<close> (what the program
  writes with \<open>encoding/json\<close>, and a reader for its strings).

  Balancing, \<open>internal/balancer\<close>: \<open>Round_Robin\<close> (roundrobin.go), \<open>Weighted_RR\<close> (weighted.go; \<open>w_Next\<close> and
  its two loops \<open>add_weights\<close> and \<open>best_index\<close>), \<open>Least_Conn\<close> (leastconn.go) and \<open>Balancers\<close> (balancer.go: the
  factory and the interface value, with \<open>Acquire\<close> and \<open>Release\<close> as type assertions). \<open>Balancer_Iface\<close> holds
  the locale \<open>balancer\<close> (what its clients may rely on: a listed address is handed out, the empty
  string only for an empty list, a pushed list is served) and its extension
  \<open>counting_balancer\<close> (what Acquire and Release do to one counter). The first is interpreted on each of
  the three balancers and on the interface value, the second on the least-connections one and on the
  interface value. \<open>Weighted_Fair\<close> proves the smooth weighted
  rotation fair over unbounded integers and refines \<open>w_Next\<close> to it.

  Health, \<open>internal/health\<close>: \<open>Pulse_Scan\<close> (pulsescan.go: \<open>check_start\<close>, \<open>check_visit\<close> and \<open>check_finish\<close> are
  the start, one turn of the loop and the end of \<open>check\<close>, \<open>ps_check\<close> is a whole round and
  \<open>ps_SetAll\<close> a reload), \<open>Health_Events\<close> (reading its events back) and \<open>Scan_Race\<close> (the step relation in which rounds and reloads interleave).

  Tunnels, \<open>internal/tunnel\<close>: \<open>Tunnel\<close> (tunnel.go, over \<open>Tasks\<close>: \<open>handle_step\<close> is one operation of \<open>handle\<close> on the balancer or a
  socket, \<open>tun_step\<close> interleaves the accept loop, its connections and the health checker) and \<open>Udp_Tunnel\<close>
  (udp.go: every goroutine with its program counter, one step per operation on a shared object, the
  session table, sockets and timestamps; when the listening socket fails, \<open>Listen\<close> returns and the
  program goes on as a run with no further \<open>us_receive\<close> step, in which the pumps' writes fail).
  \<open>Udp_Invariant\<close> is the invariant of its table, its sockets and its pumps, \<open>Udp_Delivery\<close> what
  follows from it for one datagram and one session.

  The HTTP path: \<open>Flux_Shield\<close> (ratelimit/fluxshield.go), \<open>Status_Writer\<close> (the response writers of the
  log and of the metrics), \<open>Stellar_Log\<close> (logger/stellar.go), \<open>Metrics_Mw\<close> (metrics/middleware.go and the
  metric variables), \<open>Proxy\<close> (proxy/proxy.go; \<open>p_ServeHTTP\<close> is a request on its own) and
  \<open>Proxy_Tasks\<close> (requests that run at the same time, cut at their calls of the balancer). \<open>Mission_Control\<close> (cmd/centauri/main.go) composes them as
  \<open>gate_handler\<close>, and models what starting a gate, reloading the configuration and the flush ticker do;
  \<open>Gate_Life\<close> runs such a gate (checker, reloads, clean-ups and requests over the shared balancer, one
  event at a time); \<open>Startup\<close> is the abstract start of the program (\<open>main_start\<close>: which program comes up, or which
  error), the mux of the metrics server and the events that are stored. \<open>Go_Os\<close> is what the program asks of the
  operating system and its libraries (\<open>os_call\<close>, each recorded, each failing as the environment answers) with the
  two ways the code handles errors, in the state monad, and \<open>Boot\<close> is \<open>main\<close> call by call with the
  functions that open things (\<open>OpenStore\<close> and \<open>Init\<close> of metrics/store.go, \<open>New\<close> of logger/stellar.go, \<open>Watch\<close> of
  config/watcher.go, \<open>AutoCert\<close> and \<open>ManualCert\<close> of tls/stellar.go, \<open>Init\<close> of metrics/collector.go, \<open>Start\<close> of
  oracle/oracle.go); its computations are shown to be plain lists of calls, cut at the first failure
  (\<open>scripted\<close>, one rule per combinator). \<open>Tasks\<close> holds the step relation of
  goroutines that share a balancer, and the locale \<open>counted_tasks\<close>: what a component owes the
  least-connections counters, and the invariant that follows; the TCP tunnel and the proxy interpret it.

  Observation: \<open>Collector\<close> (the reading side of metrics/collector.go), \<open>Registry\<close> (its vectors, and what the
  Prometheus registry makes of the operations on them, a hypothesis), \<open>Percentile\<close> (what its estimate estimates), \<open>Durations\<close> (how
  good it is with the program's buckets),
  \<open>Aggregator\<close> (oracle/aggregator.go), \<open>Store\<close> (metrics/store.go, over a SQL engine whose documented behaviour is the locale \<open>signal_store\<close>,
  interpreted on an engine in memory), \<open>Store_Tables\<close> (the two tables that are only written, through the locale
  \<open>append_table\<close>, interpreted for statistics and for events on an engine with all three tables), \<open>The_Oracle\<close> (oracle/oracle.go), \<open>Oracle_Race\<close> (its two
  goroutines, interleaved where the mutex is free) and \<open>Signals\<close> (oracle/signals.go).

  Configuration: \<open>Config\<close> (config/config.go with \<open>os.ExpandEnv\<close>, and config/watcher.go) and \<open>Wizard\<close>
  (cmd/centauri/wizard.go).

  \<^bold>\<open>What the theorems show.\<close> They are in the nine \<open>_Props\<close> theories, each after a text with its number.

  \<^item> \<open>Life_Props\<close> (C1, C2): a gate as a whole, after any history: where a request goes and what its client
    gets, and that log, metrics and counters account for every request.
  \<^item> \<open>Record_Props\<close> (C3, C4 and C28): what the program leaves in its database: rows that count the requests of a
    gate as its log does, from the middleware through the registry and the snapshots to the table; events that
    tell the health of the backends; what a failed insert costs.
  \<^item> \<open>Balancing_Props\<close> (C5 to C10): the weighted rotation gives exact shares, refines its specification without
    overflow and is never ahead; a pushed list keeps weights, except of a backend that comes back; the
    plain rotation is even; the least-loaded choice.
  \<^item> \<open>Health_Props\<close> (C11 to C13): what a round records, reports and pushes; what a reload does; the race between
    the two. The invariant between the health map and the balancer over rounds and reloads is a lemma, and part of C1.
  \<^item> \<open>Tunnel_Props\<close> (C14 to C19): invariants of the step relations over every interleaving, how a TCP
    connection ends, delivery of a datagram within seven steps of its goroutine, and the session without a pump.
  \<^item> \<open>Serving_Props\<close> (C20 to C26): the counters under concurrent requests, a rejected request, switches and
    informational statuses through the whole chain, rate limits client by client, the log file as bytes.
  \<^item> \<open>Observe_Props\<close> (C27, C29 to C34): how far the reported percentile is off, rates; how often each goroutine of the Oracle asks, and
    that both can ask at once; what becomes of a signal.
  \<^item> \<open>Config_Props\<close> (C36, C37, C40): the answers of the wizard, the load of the file, the program that starts from it and follows it.
  \<^item> \<open>Boot_Props\<close> (C35, C38, C39): from the wizard's file to the program that runs from it; the calls of the start in
    order up to the first failure, and that they amount to the abstract start.

  \<^bold>\<open>Parameters.\<close> What is not under \<open>src\<close> is an argument of the definitions that use it, with its
  documented behaviour as a hypothesis where a theorem needs one: the token bucket (\<open>limiter_ops\<close>), the backend's
  answer (\<open>backend_result\<close>), the probes of a round (\<open>probe\<close>), the SQL engine (\<open>engine\<close>), the metrics
  registry (\<open>registry_ok\<close>), the calls of the operating system (\<open>os\<close>), the YAML
  decoder and the file (\<open>loader\<close>), the model client and the JSON decoder (fields of \<open>world\<close>), the
  clock, the environment. Every theorem with such a hypothesis has a witness on a concrete instance.

  \<^bold>\<open>Bounds and termination.\<close> No definition needs fuel. Recursions that are not structural (\<open>Expand\<close>,
  \<open>read_backends\<close>, \<open>trim_left\<close>, \<open>trim_right\<close>) have termination proofs on the length of what is left to
  read. Weights, counters and indices are \<open>int64\<close> or \<open>uint64\<close> words; the theorems about weighted
  rotation assume that the sum of the weights fits (\<open>fits\<close>), those about the plain rotation
  that its index does not wrap, and the one about the percentile that there are at most \<open>2^46\<close> samples, so
  that counts are exact in float64 and the target picks the exact rank. Arithmetic on float64 is written
  with the operators of the code, instances of HOL's classes in \<open>Go_Float\<close>.

  \<^bold>\<open>What is not modelled.\<close> What the program prints. What the libraries do behind the calls of \<open>Go_Os\<close>: the servers'
  sockets, the certificates of autocert and crypto/tls, the Prometheus handler, the tickers. \<open>NewWithWriter\<close> of
  logger/stellar.go is called by tests only. Of the byte copies of a
  TCP connection only their ends are modelled. Go's maps iterate in an arbitrary
  order: the code only deletes while it iterates, and the model takes one order. Locks are modelled by the choice of the atomic
  steps. The dashboards, scripts and documents under \<open>src\<close> are not code of this language.
\<close>

end
